(* ===== verification/Prelude.thy ===== *)
theory Prelude
  imports Main
begin

text \<open>
  Shared vocabulary of the development: the collections of unfolding rules that
  the component proofs use, and the generic facts on integer intervals and on
  sums over updated functions that the queue invariants and the thread counts
  need.  Nothing here is specific to the restaurant; the components import it.
\<close>

named_theorems restaurant_ops
  "unfolding rules of the critical sections of BENSCHILLIBOWL.c"

named_theorems sys_invs
  "unfolding rules of the invariants of the thread system"

type_synonym thread_index = nat

subsection \<open>Integer intervals\<close>

text \<open>
  The order numbers held by the queue are the integer interval
  \<open>[handled + 1 .. next - 1]\<close>.  Appending at the back extends the interval at its
  upper end, removing at the front shrinks it at its lower end.
\<close>

lemma upto_snoc [simp]:
  fixes i j :: int
  assumes "i \<le> j + 1"
  shows "[i..j] @ [j + 1] = [i..j + 1]"
  using assms by (simp add: upto_rec2)

lemma upto_Cons_eq:
  fixes i j :: int
  assumes "[i..j] = x # xs"
  shows "x = i \<and> xs = [i + 1..j]"
proof -
  from assms have "i \<le> j" by (cases "i \<le> j") simp_all
  with assms show ?thesis by (auto simp add: upto_rec1)
qed

lemma upto_empty_iff:
  fixes i j :: int
  shows "([i..j] = []) = (j < i)"
  by simp

lemma sorted_wrt_upto:
  fixes i j :: int
  shows "sorted_wrt (<) [i..j]"
  by (simp add: sorted_wrt_iff_nth_less)

subsection \<open>Sums over a function updated at one point\<close>

text \<open>
  The number of orders placed so far is a sum over the customers' program
  counters; a step of one customer changes one summand by one, and the sum
  reaches its maximum only when every summand does.
\<close>

lemma sum_Suc_at:
  fixes f g :: "'a \<Rightarrow> nat"
  assumes "finite A" and "x \<in> A" and "g x = Suc (f x)" and "\<forall>y\<in>A. y \<noteq> x \<longrightarrow> g y = f y"
  shows "sum g A = Suc (sum f A)"
proof -
  have "sum g (A - {x}) = sum f (A - {x})" using assms(4) by (intro sum.cong) auto
  with assms(1,2,3) show ?thesis by (simp add: sum.remove)
qed

lemma ball_upto_Suc: "(\<forall>c\<in>{Suc 0..Suc i}. P c) = ((\<forall>c\<in>{Suc 0..i}. P c) \<and> P (Suc i))"
  by (simp add: atLeastAtMostSuc_conv conj_commute)

lemma sum_le_each_bound:
  fixes f :: "'a \<Rightarrow> nat"
  assumes "\<forall>i\<in>A. f i \<le> k"
  shows "(\<Sum>i\<in>A. f i) \<le> card A * k"
  using assms sum_bounded_above [of A f k] by simp

lemma sum_eq_each_bound:
  fixes f :: "'a \<Rightarrow> nat"
  assumes "finite A" and "\<forall>i\<in>A. f i \<le> k" and "(\<Sum>i\<in>A. f i) = card A * k"
  shows "\<forall>i\<in>A. f i = k"
proof
  fix x assume x: "x \<in> A"
  have "(\<Sum>i\<in>A - {x}. f i) \<le> card (A - {x}) * k"
    using assms(2) by (intro sum_le_each_bound) auto
  moreover have "(\<Sum>i\<in>A. f i) = f x + (\<Sum>i\<in>A - {x}. f i)"
    using assms(1) x by (simp add: sum.remove)
  moreover have "card A = Suc (card (A - {x}))"
    using card_Suc_Diff1 [OF assms(1) x] by simp
  ultimately have "k \<le> f x" using assms(3) by simp
  moreover have "f x \<le> k" using assms(2) x by blast
  ultimately show "f x = k" by simp
qed

end
