(* ===== verification/QueueSpec.thy ===== *)
theory QueueSpec
  imports Prelude
begin

text \<open>
  The abstract bounded order queue of the specification (sections 3 and 4 of
  \<^verbatim>\<open>spec.md\<close>): a FIFO of sequence-numbered payloads with a fixed capacity, the next
  sequence number, the number of completed dequeues and the expected total.
  \<open>bq_enqueue\<close> and \<open>bq_dequeue\<close> are one attempt of Enqueue and Dequeue under the
  lock: \<open>None\<close> is "the caller blocks".  The restaurant of \<open>Restaurant\<close> refines it.
\<close>

record 'p bqueue =
  capacity :: nat
  items :: "(nat \<times> 'p) list"
  next_sequence_number :: nat
  completed_count :: nat
  expected_total :: nat

datatype 'p dequeued = Done | Item "nat \<times> 'p"

definition bq_create :: "nat \<Rightarrow> nat \<Rightarrow> 'p bqueue" where
  "bq_create cap expected =
     \<lparr>capacity = cap, items = [], next_sequence_number = 1, completed_count = 0,
      expected_total = expected\<rparr>"

definition bq_enqueue :: "'p bqueue \<Rightarrow> 'p \<Rightarrow> (nat \<times> 'p bqueue) option" where
  "bq_enqueue q x =
     (if capacity q \<le> length (items q) then None
      else Some (next_sequence_number q,
                 q\<lparr>items := items q @ [(next_sequence_number q, x)],
                   next_sequence_number := Suc (next_sequence_number q)\<rparr>))"

definition bq_dequeue :: "'p bqueue \<Rightarrow> ('p dequeued \<times> 'p bqueue) option" where
  "bq_dequeue q =
     (case items q of
        [] \<Rightarrow> if completed_count q < expected_total q then None else Some (Done, q)
      | it # its \<Rightarrow> Some (Item it, q\<lparr>items := its, completed_count := Suc (completed_count q)\<rparr>))"

definition bq_close_ok :: "'p bqueue \<Rightarrow> bool" where
  "bq_close_ok q \<longleftrightarrow> completed_count q = expected_total q \<and> items q = []"

text \<open>Invariants (1), (3) and (4) of the specification; (2) is a property of the callers.\<close>

definition bq_inv :: "'p bqueue \<Rightarrow> bool" where
  "bq_inv q \<longleftrightarrow>
     0 < capacity q \<and> length (items q) \<le> capacity q \<and>
     sorted_wrt (<) (map fst (items q)) \<and> (\<forall>it\<in>set (items q). fst it < next_sequence_number q) \<and>
     next_sequence_number q = Suc (length (items q) + completed_count q)"

lemma bq_create_inv: "0 < cap \<Longrightarrow> bq_inv (bq_create cap expected)"
  by (simp add: bq_create_def bq_inv_def)

lemma bq_enqueue_inv:
  assumes "bq_inv q" and "bq_enqueue q x = Some (n, q')"
  shows "bq_inv q'"
  using assms by (auto simp: bq_enqueue_def bq_inv_def sorted_wrt_append split: if_splits; force)

lemma bq_dequeue_inv:
  assumes "bq_inv q" and "bq_dequeue q = Some (d, q')"
  shows "bq_inv q'"
  using assms by (auto simp: bq_dequeue_def bq_inv_def split: list.splits if_splits; force)

lemma bq_enqueue_seq:
  assumes "bq_enqueue q x = Some (n, q')"
  shows "n = next_sequence_number q \<and> next_sequence_number q' = Suc n \<and>
         items q' = items q @ [(n, x)]"
  using assms by (auto simp: bq_enqueue_def split: if_splits)

lemma bq_dequeue_fifo:
  assumes "bq_dequeue q = Some (Item it, q')"
  shows "items q = it # items q'"
  using assms by (auto simp: bq_dequeue_def split: list.splits if_splits)

end
