(* ===== verification/Restaurant.thy ===== *)
theory Restaurant
  imports Prelude QueueSpec
begin

text \<open>
  The bounded order queue of \<^verbatim>\<open>src/BENSCHILLIBOWL.c\<close>: the restaurant record, the
  menu, and one definition per function of the file.  \<open>AddOrder\<close> and \<open>GetOrder\<close>
  are modelled as one pass through their critical section, from the moment the
  calling thread holds the mutex until it either waits on a condition variable
  (the guard of the \<^verbatim>\<open>while\<close> loop holds) or returns and unlocks; the result says
  which condition variable is signalled or broadcast.  The thread system of
  \<open>Monitor\<close> composes these passes with the waiting and waking of threads.
  The linked list of orders is modelled by the list of its nodes, front first.
\<close>

section \<open>Data\<close>

text \<open>\<^verbatim>\<open>Order\<close>: the menu item (a C string), the customer and the order number.\<close>

record order =
  menu_item :: string
  customer_id :: int
  order_number :: int

text \<open>
  \<^verbatim>\<open>BENSCHILLIBOWL\<close>: the queue and its counters, all C \<^verbatim>\<open>int\<close>s.  The mutex and the
  two condition variables are the scheduling state of \<open>Monitor\<close>.
\<close>

record restaurant =
  orders :: "order list"
  current_size :: int
  max_size :: int
  next_order_number :: int
  orders_handled :: int
  expected_num_orders :: int

definition BENSCHILLIBOWLMenu :: "string list" where
  "BENSCHILLIBOWLMenu =
     [''BensChilli'', ''BensHalfSmoke'', ''BensHotDog'', ''BensChilliCheeseFries'',
      ''BensShake'', ''BensHotCakes'', ''BensCake'', ''BensHamburger'',
      ''BensVeggieBurger'', ''BensOnionRings'']"

definition BENSCHILLIBOWLMenuLength :: int where
  "BENSCHILLIBOWLMenuLength = 10"

text \<open>
  \<open>PickRandomMenuItem\<close> reads \<^verbatim>\<open>rand()\<close>, a value in \<open>[0, RAND_MAX]\<close>; it is the
  parameter \<open>r\<close>.  C's \<^verbatim>\<open>%\<close> agrees with HOL's \<open>mod\<close> on non-negative operands.
\<close>

definition PickRandomMenuItem :: "int \<Rightarrow> string" where
  "PickRandomMenuItem r = BENSCHILLIBOWLMenu ! nat (r mod BENSCHILLIBOWLMenuLength)"

datatype cond_var = can_add_orders | can_get_orders

datatype notify = Signal cond_var | Broadcast cond_var

text \<open>
  One pass of a critical section: the thread waits on a condition variable,
  returns a value after notifying, or dereferences the \<^verbatim>\<open>NULL\<close> list head.
\<close>

datatype 'a attempt =
    Blocks cond_var
  | Returns 'a restaurant notify
  | NullDeref

datatype close_error = AssertOrdersHandled | AssertIsEmpty

section \<open>Operations\<close>

definition OpenRestaurant :: "int \<Rightarrow> int \<Rightarrow> restaurant" where
  "OpenRestaurant max_sz expected =
     \<lparr>orders = [], current_size = 0, max_size = max_sz, next_order_number = 1,
      orders_handled = 0, expected_num_orders = expected\<rparr>"

definition IsEmpty :: "restaurant \<Rightarrow> bool" where
  "IsEmpty r \<longleftrightarrow> current_size r = 0"

definition IsFull :: "restaurant \<Rightarrow> bool" where
  "IsFull r \<longleftrightarrow> max_size r \<le> current_size r"

text \<open>\<open>AddOrderToBack\<close>: walk to the last node and link the new one behind it.\<close>

fun AddOrderToBack :: "order list \<Rightarrow> order \<Rightarrow> order list" where
  "AddOrderToBack [] ord = [ord]"
| "AddOrderToBack (c # cs) ord = c # AddOrderToBack cs ord"

definition AddOrder :: "restaurant \<Rightarrow> order \<Rightarrow> int attempt" where
  "AddOrder r ord =
     (if IsFull r then Blocks can_add_orders
      else let n = next_order_number r;
               ord' = ord\<lparr>order_number := n\<rparr>
           in Returns n
                (r\<lparr>next_order_number := n + 1,
                   orders := AddOrderToBack (orders r) ord',
                   current_size := current_size r + 1\<rparr>)
                (Signal can_get_orders))"

definition GetOrder :: "restaurant \<Rightarrow> order option attempt" where
  "GetOrder r =
     (if IsEmpty r \<and> orders_handled r < expected_num_orders r then Blocks can_get_orders
      else if IsEmpty r \<and> expected_num_orders r \<le> orders_handled r
      then Returns None r (Broadcast can_get_orders)
      else case orders r of
             [] \<Rightarrow> NullDeref
           | ord # tail \<Rightarrow>
               Returns (Some ord)
                 (r\<lparr>orders := tail, current_size := current_size r - 1,
                    orders_handled := orders_handled r + 1\<rparr>)
                 (Signal can_add_orders))"

text \<open>The defensive loop of \<open>CloseRestaurant\<close> that frees left-over nodes: it counts the frees.\<close>

fun FreeOrders :: "order list \<Rightarrow> nat" where
  "FreeOrders [] = 0"
| "FreeOrders (c # cs) = Suc (FreeOrders cs)"

definition CloseRestaurant :: "restaurant \<Rightarrow> close_error + nat" where
  "CloseRestaurant r =
     (if orders_handled r \<noteq> expected_num_orders r then Inl AssertOrdersHandled
      else if \<not> IsEmpty r then Inl AssertIsEmpty
      else Inr (FreeOrders (orders r)))"

declare OpenRestaurant_def [restaurant_ops] IsEmpty_def [restaurant_ops]
  IsFull_def [restaurant_ops] AddOrder_def [restaurant_ops] GetOrder_def [restaurant_ops]
  CloseRestaurant_def [restaurant_ops]

section \<open>Invariant\<close>

text \<open>
  The representation invariant of the restaurant: a positive capacity, the size
  counter equal to the length of the list and within the capacity, and the order
  numbers in the list exactly \<open>handled + 1, \<dots>, next - 1\<close>, front first (strictly
  increasing, gap-free, none lost).
\<close>

definition restaurant_inv :: "restaurant \<Rightarrow> bool" where
  "restaurant_inv r \<longleftrightarrow>
     0 < max_size r \<and>
     current_size r = int (length (orders r)) \<and>
     current_size r \<le> max_size r \<and>
     0 \<le> orders_handled r \<and>
     next_order_number r = orders_handled r + current_size r + 1 \<and>
     map order_number (orders r) = [orders_handled r + 1 .. next_order_number r - 1]"

section \<open>Abstraction to the bounded order queue of the specification\<close>

text \<open>
  The payload of an order is its menu item and its customer; the sequence number
  is its order number.  The abstraction reads every \<^verbatim>\<open>int\<close> counter as a natural.
\<close>

definition order_payload :: "order \<Rightarrow> string \<times> int" where
  "order_payload ord = (menu_item ord, customer_id ord)"

definition bq_of :: "restaurant \<Rightarrow> (string \<times> int) bqueue" where
  "bq_of r =
     \<lparr>capacity = nat (max_size r),
      items = map (\<lambda>ord. (nat (order_number ord), order_payload ord)) (orders r),
      next_sequence_number = nat (next_order_number r),
      completed_count = nat (orders_handled r),
      expected_total = nat (expected_num_orders r)\<rparr>"

fun dequeued_of :: "order option \<Rightarrow> (string \<times> int) dequeued" where
  "dequeued_of None = Done"
| "dequeued_of (Some ord) = Item (nat (order_number ord), order_payload ord)"

section \<open>Lemmas\<close>

lemma AddOrderToBack_eq [simp]: "AddOrderToBack xs ord = xs @ [ord]"
  by (induction xs) auto

lemma FreeOrders_eq [simp]: "FreeOrders xs = length xs"
  by (induction xs) auto

lemma AddOrder_Returns:
  assumes "AddOrder r ord = Returns n r' nt"
  shows "\<not> IsFull r \<and> n = next_order_number r \<and> nt = Signal can_get_orders \<and>
         r' = r\<lparr>next_order_number := n + 1,
                 orders := orders r @ [ord\<lparr>order_number := n\<rparr>],
                 current_size := current_size r + 1\<rparr>"
  using assms by (auto simp: AddOrder_def Let_def split: if_splits)

lemma AddOrder_Blocks: "AddOrder r ord = Blocks cv \<longleftrightarrow> IsFull r \<and> cv = can_add_orders"
  by (auto simp: AddOrder_def Let_def)

lemma AddOrder_not_NullDeref [simp]: "AddOrder r ord \<noteq> NullDeref"
  by (simp add: AddOrder_def Let_def)

lemma restaurant_inv_nonempty:
  assumes "restaurant_inv r"
  shows "IsEmpty r \<longleftrightarrow> orders r = []"
  using assms by (auto simp: restaurant_inv_def IsEmpty_def)

lemma restaurant_inv_head:
  assumes "restaurant_inv r" and "orders r = ord # tail"
  shows "order_number ord = orders_handled r + 1 \<and>
         map order_number tail = [orders_handled r + 2 .. next_order_number r - 1]"
proof -
  have "[orders_handled r + 1 .. next_order_number r - 1] = order_number ord # map order_number tail"
    using assms by (simp add: restaurant_inv_def)
  then have "order_number ord = orders_handled r + 1 \<and>
             map order_number tail = [orders_handled r + 1 + 1 .. next_order_number r - 1]"
    by (metis upto_Cons_eq)
  then show ?thesis by (simp add: add.assoc)
qed

lemma restaurant_inv_AddOrder:
  assumes inv: "restaurant_inv r" and ret: "AddOrder r ord = Returns n r' nt"
  shows "restaurant_inv r'"
proof -
  note r' = AddOrder_Returns [OF ret]
  let ?h = "orders_handled r" and ?nx = "next_order_number r"
  have "map order_number (orders r') = [?h + 1 .. ?nx - 1] @ [?nx - 1 + 1]"
    using inv r' by (simp add: restaurant_inv_def)
  also have "\<dots> = [?h + 1 .. ?nx]"
    using inv by (simp add: restaurant_inv_def)
  finally have "map order_number (orders r') = [orders_handled r' + 1 .. next_order_number r' - 1]"
    using r' by simp
  with inv r' show ?thesis
    by (simp add: restaurant_inv_def IsFull_def)
qed

lemma GetOrder_Returns_Some:
  assumes "GetOrder r = Returns (Some ord) r' nt"
  shows "\<exists>tail. orders r = ord # tail \<and> nt = Signal can_add_orders \<and>
           r' = r\<lparr>orders := tail, current_size := current_size r - 1,
                   orders_handled := orders_handled r + 1\<rparr>"
  using assms by (auto simp: GetOrder_def split: if_splits list.splits)

lemma GetOrder_Returns_None:
  assumes "GetOrder r = Returns None r' nt"
  shows "IsEmpty r \<and> expected_num_orders r \<le> orders_handled r \<and> r' = r \<and>
         nt = Broadcast can_get_orders"
  using assms by (auto simp: GetOrder_def split: if_splits list.splits)

lemma GetOrder_Blocks:
  "GetOrder r = Blocks cv \<longleftrightarrow>
     IsEmpty r \<and> orders_handled r < expected_num_orders r \<and> cv = can_get_orders"
  by (auto simp: GetOrder_def split: list.splits)

lemma GetOrder_not_NullDeref:
  assumes "restaurant_inv r"
  shows "GetOrder r \<noteq> NullDeref"
  using assms by (auto simp: GetOrder_def restaurant_inv_nonempty split: list.splits)

lemma restaurant_inv_GetOrder:
  assumes inv: "restaurant_inv r" and ret: "GetOrder r = Returns res r' nt"
  shows "restaurant_inv r'"
proof (cases res)
  case None
  with inv ret show ?thesis by (auto dest: GetOrder_Returns_None)
next
  case (Some ord)
  then obtain tail where o: "orders r = ord # tail"
    and r': "r' = r\<lparr>orders := tail, current_size := current_size r - 1,
                     orders_handled := orders_handled r + 1\<rparr>"
    using GetOrder_Returns_Some ret by blast
  from restaurant_inv_head [OF inv o]
  have "map order_number tail = [orders_handled r + 1 + 1 .. next_order_number r - 1]"
    by (simp add: add.assoc)
  with inv o r' show ?thesis
    by (simp add: restaurant_inv_def)
qed


lemma restaurant_inv_enqueue:
  assumes "restaurant_inv r" and "\<not> IsFull r"
  shows "restaurant_inv (r\<lparr>next_order_number := next_order_number r + 1,
           orders := orders r @ [ord\<lparr>order_number := next_order_number r\<rparr>],
           current_size := current_size r + 1\<rparr>)"
proof -
  have "AddOrder r ord = Returns (next_order_number r)
          (r\<lparr>next_order_number := next_order_number r + 1,
             orders := orders r @ [ord\<lparr>order_number := next_order_number r\<rparr>],
             current_size := current_size r + 1\<rparr>) (Signal can_get_orders)"
    using assms(2) by (simp add: AddOrder_def Let_def)
  with assms(1) show ?thesis by (rule restaurant_inv_AddOrder)
qed

lemma restaurant_inv_dequeue:
  assumes "restaurant_inv r" and "orders r = ord # tail"
  shows "restaurant_inv (r\<lparr>orders := tail, current_size := current_size r - 1,
           orders_handled := orders_handled r + 1\<rparr>)"
proof -
  have "GetOrder r = Returns (Some ord)
          (r\<lparr>orders := tail, current_size := current_size r - 1,
             orders_handled := orders_handled r + 1\<rparr>) (Signal can_add_orders)"
    using assms by (simp add: GetOrder_def restaurant_inv_nonempty)
  with assms(1) show ?thesis by (rule restaurant_inv_GetOrder)
qed

lemma restaurant_inv_counters:
  assumes "restaurant_inv r"
  shows "0 < max_size r \<and> 0 \<le> orders_handled r \<and> 0 < next_order_number r \<and>
         0 \<le> current_size r \<and> current_size r \<le> max_size r"
  using assms by (auto simp: restaurant_inv_def)

lemma restaurant_inv_IsFull:
  assumes "restaurant_inv r"
  shows "IsFull r \<longleftrightarrow> nat (max_size r) \<le> length (orders r)"
  using assms by (auto simp: restaurant_inv_def IsFull_def)

section \<open>Refinement of the bounded order queue\<close>

text \<open>
  C1 (refinement).  One pass of \<open>AddOrder\<close> under the lock implements one attempt of
  the specification's Enqueue: it waits on \<open>can_add_orders\<close> exactly when Enqueue
  blocks, and otherwise returns Enqueue's sequence number, leaves the queue in the
  state Enqueue leaves it in, and signals \<open>can_get_orders\<close>.  The restaurant it
  leaves satisfies the invariant again (the size field counts the list), so the
  next pass refines the next Enqueue as well.
\<close>

theorem AddOrder_refines:
  assumes inv: "restaurant_inv r"
  shows "case AddOrder r ord of
           Blocks cv \<Rightarrow> cv = can_add_orders \<and> bq_enqueue (bq_of r) (order_payload ord) = None
         | Returns n r' nt \<Rightarrow> nt = Signal can_get_orders \<and> restaurant_inv r' \<and>
             bq_enqueue (bq_of r) (order_payload ord) = Some (nat n, bq_of r')
         | NullDeref \<Rightarrow> False"
proof -
  have step: "case AddOrder r ord of
           Blocks cv \<Rightarrow> cv = can_add_orders \<and> bq_enqueue (bq_of r) (order_payload ord) = None
         | Returns n r' nt \<Rightarrow> nt = Signal can_get_orders \<and>
             bq_enqueue (bq_of r) (order_payload ord) = Some (nat n, bq_of r')
         | NullDeref \<Rightarrow> False"
  proof (cases "IsFull r")
    case True
    with inv show ?thesis
      by (simp add: AddOrder_def bq_enqueue_def bq_of_def restaurant_inv_IsFull)
  next
    case False
    from inv have "0 < next_order_number r" by (simp add: restaurant_inv_counters)
    then have "nat (next_order_number r + 1) = Suc (nat (next_order_number r))" by simp
    with False inv show ?thesis
      by (simp add: AddOrder_def Let_def bq_enqueue_def bq_of_def restaurant_inv_IsFull order_payload_def)
  qed
  with restaurant_inv_AddOrder [OF inv] show ?thesis
    by (cases "AddOrder r ord") auto
qed


text \<open>
  C2 (refinement).  One pass of \<open>GetOrder\<close> under the lock implements one attempt of
  the specification's Dequeue: it waits on \<open>can_get_orders\<close> exactly when Dequeue
  blocks (empty, fewer completed than expected); it returns \<^verbatim>\<open>NULL\<close> and broadcasts
  exactly when Dequeue returns Done; otherwise it returns the head order, as
  Dequeue returns the head item, and signals \<open>can_add_orders\<close>.  It never
  dereferences a \<^verbatim>\<open>NULL\<close> list, and the restaurant it leaves satisfies the
  invariant again, so the next pass does not either.
\<close>

theorem GetOrder_refines:
  assumes inv: "restaurant_inv r"
  shows "case GetOrder r of
           Blocks cv \<Rightarrow> cv = can_get_orders \<and> bq_dequeue (bq_of r) = None
         | Returns res r' nt \<Rightarrow> restaurant_inv r' \<and>
             bq_dequeue (bq_of r) = Some (dequeued_of res, bq_of r') \<and>
             nt = (if res = None then Broadcast can_get_orders else Signal can_add_orders)
         | NullDeref \<Rightarrow> False"
proof -
  have step: "case GetOrder r of
           Blocks cv \<Rightarrow> cv = can_get_orders \<and> bq_dequeue (bq_of r) = None
         | Returns res r' nt \<Rightarrow>
             bq_dequeue (bq_of r) = Some (dequeued_of res, bq_of r') \<and>
             nt = (if res = None then Broadcast can_get_orders else Signal can_add_orders)
         | NullDeref \<Rightarrow> False"
  proof (cases "orders r")
    case Nil
    with inv have "IsEmpty r" by (simp add: restaurant_inv_nonempty)
    moreover have "0 \<le> orders_handled r" using inv by (simp add: restaurant_inv_counters)
    then have "(orders_handled r < expected_num_orders r) =
               (nat (orders_handled r) < nat (expected_num_orders r))"
      by (auto simp add: nat_less_eq_zless)
    ultimately show ?thesis
      using Nil by (auto simp: GetOrder_def bq_dequeue_def bq_of_def)
  next
    case (Cons ord tail)
    with inv have "\<not> IsEmpty r" by (simp add: restaurant_inv_nonempty)
    moreover from inv have "0 \<le> orders_handled r" by (simp add: restaurant_inv_counters)
    then have "nat (orders_handled r + 1) = Suc (nat (orders_handled r))" by simp
    ultimately show ?thesis
      using Cons by (simp add: GetOrder_def bq_dequeue_def bq_of_def)
  qed
  with restaurant_inv_GetOrder [OF inv] show ?thesis
    by (cases "GetOrder r") auto
qed

text \<open>
  C3 (error).  \<open>CloseRestaurant\<close> fails its first assertion when fewer or more
  orders were handled than expected, its second when the queue is not empty, and
  succeeds, freeing no left-over node, exactly when the specification's Close
  precondition holds (for a non-negative expected count).
\<close>

theorem CloseRestaurant_refines:
  assumes inv: "restaurant_inv r" and exp: "0 \<le> expected_num_orders r"
  shows "CloseRestaurant r =
           (if bq_close_ok (bq_of r) then Inr 0
            else if orders_handled r \<noteq> expected_num_orders r then Inl AssertOrdersHandled
            else Inl AssertIsEmpty)"
proof -
  have "0 \<le> orders_handled r" using inv by (simp add: restaurant_inv_counters)
  then have "(orders_handled r = expected_num_orders r) =
             (nat (orders_handled r) = nat (expected_num_orders r))"
    using exp by (simp add: eq_nat_nat_iff)
  with inv show ?thesis
    by (auto simp: CloseRestaurant_def bq_close_ok_def bq_of_def restaurant_inv_nonempty)
qed

section \<open>Witnesses\<close>

lemma OpenRestaurant_inv: "0 < max_sz \<Longrightarrow> restaurant_inv (OpenRestaurant max_sz expected)"
  by (simp add: OpenRestaurant_def restaurant_inv_def)

theorem AddOrder_refines_witness:
  "restaurant_inv (OpenRestaurant 2 3) \<and>
   (case AddOrder (OpenRestaurant 2 3)
           \<lparr>menu_item = ''BensChilli'', customer_id = 1, order_number = 0\<rparr> of
      Blocks cv \<Rightarrow> cv = can_add_orders \<and>
        bq_enqueue (bq_of (OpenRestaurant 2 3)) (order_payload
          \<lparr>menu_item = ''BensChilli'', customer_id = 1, order_number = 0\<rparr>) = None
    | Returns n r' nt \<Rightarrow> nt = Signal can_get_orders \<and> restaurant_inv r' \<and>
        bq_enqueue (bq_of (OpenRestaurant 2 3)) (order_payload
          \<lparr>menu_item = ''BensChilli'', customer_id = 1, order_number = 0\<rparr>) = Some (nat n, bq_of r')
    | NullDeref \<Rightarrow> False)"
proof -
  have h: "restaurant_inv (OpenRestaurant 2 3)" by (rule OpenRestaurant_inv) simp
  show ?thesis by (rule conjI [OF h AddOrder_refines [OF h]])
qed

theorem GetOrder_refines_witness:
  "restaurant_inv (OpenRestaurant 1 0) \<and>
   (case GetOrder (OpenRestaurant 1 0) of
      Blocks cv \<Rightarrow> cv = can_get_orders \<and> bq_dequeue (bq_of (OpenRestaurant 1 0)) = None
    | Returns res r' nt \<Rightarrow> restaurant_inv r' \<and>
        bq_dequeue (bq_of (OpenRestaurant 1 0)) = Some (dequeued_of res, bq_of r') \<and>
        nt = (if res = None then Broadcast can_get_orders else Signal can_add_orders)
    | NullDeref \<Rightarrow> False)"
proof -
  have h: "restaurant_inv (OpenRestaurant 1 0)" by (rule OpenRestaurant_inv) simp
  show ?thesis by (rule conjI [OF h GetOrder_refines [OF h]])
qed

theorem CloseRestaurant_refines_witness:
  "restaurant_inv (OpenRestaurant 1 0) \<and> 0 \<le> expected_num_orders (OpenRestaurant 1 0) \<and>
   CloseRestaurant (OpenRestaurant 1 0) =
     (if bq_close_ok (bq_of (OpenRestaurant 1 0)) then Inr 0
      else if orders_handled (OpenRestaurant 1 0) \<noteq> expected_num_orders (OpenRestaurant 1 0)
      then Inl AssertOrdersHandled else Inl AssertIsEmpty)"
proof -
  have h: "restaurant_inv (OpenRestaurant 1 0)" by (rule OpenRestaurant_inv) simp
  have e: "0 \<le> expected_num_orders (OpenRestaurant 1 0)" by (simp add: OpenRestaurant_def)
  show ?thesis using CloseRestaurant_refines [OF h e] h e by blast
qed


section \<open>The menu index and the unchecked capacity\<close>

text \<open>
  C15 (bounds).  For every value \<^verbatim>\<open>rand()\<close> can return, the index computed by
  \<open>PickRandomMenuItem\<close> lies inside the menu array, so the item is one of the menu's.
\<close>

theorem PickRandomMenuItem_in_menu:
  assumes "0 \<le> r"
  shows "nat (r mod BENSCHILLIBOWLMenuLength) < length BENSCHILLIBOWLMenu \<and>
         PickRandomMenuItem r \<in> set BENSCHILLIBOWLMenu"
proof -
  have "nat (r mod BENSCHILLIBOWLMenuLength) < length BENSCHILLIBOWLMenu"
    by (simp add: BENSCHILLIBOWLMenuLength_def BENSCHILLIBOWLMenu_def nat_less_iff)
  then show ?thesis by (simp add: PickRandomMenuItem_def)
qed

theorem PickRandomMenuItem_in_menu_witness:
  "PickRandomMenuItem 1234 = ''BensShake'' \<and> PickRandomMenuItem 1234 \<in> set BENSCHILLIBOWLMenu"
  using PickRandomMenuItem_in_menu [of 1234]
  by (simp add: PickRandomMenuItem_def BENSCHILLIBOWLMenuLength_def BENSCHILLIBOWLMenu_def)

text \<open>
  C16 (error).  \<open>OpenRestaurant\<close> does not check its capacity: opened with a
  capacity of 0 or less, the restaurant is full from the start and every pass of
  \<open>AddOrder\<close> waits on \<open>can_add_orders\<close>, which no cook can ever signal.
\<close>

theorem OpenRestaurant_nonpositive_blocks:
  assumes "max_sz \<le> 0"
  shows "AddOrder (OpenRestaurant max_sz expected) ord = Blocks can_add_orders"
  using assms by (simp add: AddOrder_def IsFull_def OpenRestaurant_def)

theorem OpenRestaurant_nonpositive_blocks_witness:
  "AddOrder (OpenRestaurant 0 270) \<lparr>menu_item = ''BensChilli'', customer_id = 1, order_number = 0\<rparr> =
     Blocks can_add_orders"
  using OpenRestaurant_nonpositive_blocks [of 0] by simp

end
