(* ===== verification/Monitor.thy ===== *)
theory Monitor
  imports Restaurant
begin

text \<open>
  The threads of \<^verbatim>\<open>src/main.c\<close> running against the restaurant of \<open>Restaurant\<close>.
  Every access to the restaurant happens with its mutex held, so each pass
  through a critical section (\<open>AddOrder\<close>, \<open>GetOrder\<close>, \<open>CloseRestaurant\<close>) is one
  atomic step; the interleaving of the threads is the choice of which thread
  steps next.  A thread blocked in \<^verbatim>\<open>pthread_cond_wait\<close> is a program counter
  \<open>CustWaiting\<close> or \<open>CookWaiting\<close>: waiting releases the mutex, and a signal or
  broadcast moves the waiter back to the start of its critical section, where the
  \<^verbatim>\<open>while\<close> loop re-checks its guard.  \<open>pthread_cond_signal\<close> wakes any one waiter
  (POSIX does not say which), \<open>pthread_cond_broadcast\<close> all of them; with the
  flag \<open>sp\<close> a waiter may also wake spuriously, as POSIX allows.  The two logs
  are ghost state: the orders in the order \<open>AddOrder\<close> accepted them and in the
  order \<open>GetOrder\<close> handed them out.
\<close>

section \<open>Configuration and thread states\<close>

text \<open>The \<^verbatim>\<open>#define\<close> constants of \<^verbatim>\<open>main.c\<close>.\<close>

record config =
  BENSCHILLIBOWL_SIZE :: int
  NUM_CUSTOMERS :: nat
  NUM_COOKS :: nat
  ORDERS_PER_CUSTOMER :: nat

definition EXPECTED_NUM_ORDERS :: "config \<Rightarrow> int" where
  "EXPECTED_NUM_ORDERS cfg = int (NUM_CUSTOMERS cfg * ORDERS_PER_CUSTOMER cfg)"

definition main_config :: config where
  "main_config =
     \<lparr>BENSCHILLIBOWL_SIZE = 100, NUM_CUSTOMERS = 90, NUM_COOKS = 10, ORDERS_PER_CUSTOMER = 3\<rparr>"

text \<open>
  A customer thread (\<open>BENSCHILLIBOWLCustomer\<close>, indexed by its customer id): not
  yet created; at the head of its loop having placed \<open>i\<close> orders; inside
  \<open>AddOrder\<close> with its \<open>i\<close>-th order, about to (re)enter the critical section;
  blocked on \<open>can_add_orders\<close>; back from \<open>AddOrder\<close> with \<open>i\<close> orders placed,
  about to print the order it has just placed (\<^verbatim>\<open>printf\<close> reads
  \<^verbatim>\<open>order->menu_item\<close> after the mutex is released); returned.
\<close>

datatype cust_pc =
    CustNotStarted
  | CustLoop nat
  | CustAdding nat order
  | CustWaiting nat order
  | CustPrinting nat order
  | CustExited

text \<open>
  A cook thread (\<open>BENSCHILLIBOWLCook\<close>, indexed by its cook id), counting the
  orders it fulfilled: about to call (or re-enter) \<open>GetOrder\<close>; blocked on
  \<open>can_get_orders\<close>; returned; crashed on a \<^verbatim>\<open>NULL\<close> dereference in \<open>GetOrder\<close>.
\<close>

datatype cook_pc =
    CookNotStarted
  | CookLoop nat
  | CookWaiting nat
  | CookExited nat
  | CookCrashed

datatype main_pc =
    MainCreateCustomers nat
  | MainCreateCooks nat
  | MainJoinCustomers nat
  | MainJoinCooks nat
  | MainClose
  | MainReturned
  | MainAborted close_error

record sys =
  bcb :: restaurant
  customers :: "nat \<Rightarrow> cust_pc"
  cooks :: "nat \<Rightarrow> cook_pc"
  main_thread :: main_pc
  placed_log :: "order list"
  served_log :: "order list"

fun cust_waiting :: "cust_pc \<Rightarrow> bool" where
  "cust_waiting (CustWaiting i ord) = True"
| "cust_waiting p = False"

fun cook_waiting :: "cook_pc \<Rightarrow> bool" where
  "cook_waiting (CookWaiting j) = True"
| "cook_waiting p = False"

definition wake_customers :: "(nat \<Rightarrow> cust_pc) \<Rightarrow> nat \<Rightarrow> cust_pc" where
  "wake_customers cs = (\<lambda>c. case cs c of CustWaiting i ord \<Rightarrow> CustAdding i ord | p \<Rightarrow> p)"

definition wake_cooks :: "(nat \<Rightarrow> cook_pc) \<Rightarrow> nat \<Rightarrow> cook_pc" where
  "wake_cooks ks = (\<lambda>k. case ks k of CookWaiting j \<Rightarrow> CookLoop j | p \<Rightarrow> p)"

section \<open>Condition variables\<close>

text \<open>
  The effect of a notification on the waiters: the customers wait on
  \<open>can_add_orders\<close>, the cooks on \<open>can_get_orders\<close>.  A signal with no waiter is lost.
\<close>

inductive wakes ::
  "notify \<Rightarrow> (nat \<Rightarrow> cust_pc) \<times> (nat \<Rightarrow> cook_pc) \<Rightarrow> (nat \<Rightarrow> cust_pc) \<times> (nat \<Rightarrow> cook_pc) \<Rightarrow> bool"
where
  signal_customer:
    "cs c = CustWaiting i ord \<Longrightarrow>
     wakes (Signal can_add_orders) (cs, ks) (cs(c := CustAdding i ord), ks)"
| signal_no_customer:
    "\<forall>c. \<not> cust_waiting (cs c) \<Longrightarrow> wakes (Signal can_add_orders) (cs, ks) (cs, ks)"
| signal_cook:
    "ks k = CookWaiting j \<Longrightarrow>
     wakes (Signal can_get_orders) (cs, ks) (cs, ks(k := CookLoop j))"
| signal_no_cook:
    "\<forall>k. \<not> cook_waiting (ks k) \<Longrightarrow> wakes (Signal can_get_orders) (cs, ks) (cs, ks)"
| broadcast_customers:
    "wakes (Broadcast can_add_orders) (cs, ks) (wake_customers cs, ks)"
| broadcast_cooks:
    "wakes (Broadcast can_get_orders) (cs, ks) (cs, wake_cooks ks)"

section \<open>Thread steps\<close>

text \<open>
  \<open>BENSCHILLIBOWLCustomer\<close> (customer \<open>c\<close>): the loop test, a new order with the
  menu item chosen by \<open>rand()\<close> (the value \<open>r\<close>) and an indeterminate order
  number \<open>nr\<close> from \<^verbatim>\<open>malloc\<close>, one pass of \<open>AddOrder\<close>, and the \<^verbatim>\<open>printf\<close> of the order.
\<close>

inductive customer_step :: "config \<Rightarrow> nat \<Rightarrow> sys \<Rightarrow> sys \<Rightarrow> bool" where
  cust_new_order:
    "customers s c = CustLoop i \<Longrightarrow> i < ORDERS_PER_CUSTOMER cfg \<Longrightarrow> 0 \<le> r \<Longrightarrow>
     customer_step cfg c s
       (s\<lparr>customers := (customers s)(c := CustAdding i
           \<lparr>menu_item = PickRandomMenuItem r, customer_id = int c, order_number = nr\<rparr>)\<rparr>)"
| cust_loop_done:
    "customers s c = CustLoop i \<Longrightarrow> \<not> i < ORDERS_PER_CUSTOMER cfg \<Longrightarrow>
     customer_step cfg c s (s\<lparr>customers := (customers s)(c := CustExited)\<rparr>)"
| cust_add_wait:
    "customers s c = CustAdding i ord \<Longrightarrow> AddOrder (bcb s) ord = Blocks cv \<Longrightarrow>
     customer_step cfg c s (s\<lparr>customers := (customers s)(c := CustWaiting i ord)\<rparr>)"
| cust_add_return:
    "customers s c = CustAdding i ord \<Longrightarrow> AddOrder (bcb s) ord = Returns n r' nt \<Longrightarrow>
     wakes nt ((customers s)(c := CustPrinting (Suc i) (ord\<lparr>order_number := n\<rparr>)), cooks s)
       (cs', ks') \<Longrightarrow>
     customer_step cfg c s
       (s\<lparr>bcb := r', customers := cs', cooks := ks',
          placed_log := placed_log s @ [ord\<lparr>order_number := n\<rparr>]\<rparr>)"
| cust_print:
    "customers s c = CustPrinting i ord \<Longrightarrow>
     customer_step cfg c s (s\<lparr>customers := (customers s)(c := CustLoop i)\<rparr>)"

text \<open>\<open>BENSCHILLIBOWLCook\<close> (cook \<open>k\<close>): one pass of \<open>GetOrder\<close> and what the loop does with its result.\<close>

inductive cook_step :: "nat \<Rightarrow> sys \<Rightarrow> sys \<Rightarrow> bool" where
  cook_get_wait:
    "cooks s k = CookLoop j \<Longrightarrow> GetOrder (bcb s) = Blocks cv \<Longrightarrow>
     cook_step k s (s\<lparr>cooks := (cooks s)(k := CookWaiting j)\<rparr>)"
| cook_get_null:
    "cooks s k = CookLoop j \<Longrightarrow> GetOrder (bcb s) = Returns None r' nt \<Longrightarrow>
     wakes nt (customers s, (cooks s)(k := CookExited j)) (cs', ks') \<Longrightarrow>
     cook_step k s (s\<lparr>bcb := r', customers := cs', cooks := ks'\<rparr>)"
| cook_get_order:
    "cooks s k = CookLoop j \<Longrightarrow> GetOrder (bcb s) = Returns (Some ord) r' nt \<Longrightarrow>
     wakes nt (customers s, (cooks s)(k := CookLoop (Suc j))) (cs', ks') \<Longrightarrow>
     cook_step k s (s\<lparr>bcb := r', customers := cs', cooks := ks',
                      served_log := served_log s @ [ord]\<rparr>)"
| cook_get_crash:
    "cooks s k = CookLoop j \<Longrightarrow> GetOrder (bcb s) = NullDeref \<Longrightarrow>
     cook_step k s (s\<lparr>cooks := (cooks s)(k := CookCrashed)\<rparr>)"

text \<open>
  \<open>main\<close>: create the customers with ids \<open>1..NUM_CUSTOMERS\<close>, then the cooks with
  ids \<open>1..NUM_COOKS\<close>, join them in the same order, and close the restaurant; a
  failed assertion aborts.
\<close>

inductive main_step :: "config \<Rightarrow> sys \<Rightarrow> sys \<Rightarrow> bool" where
  create_customer:
    "main_thread s = MainCreateCustomers i \<Longrightarrow> i < NUM_CUSTOMERS cfg \<Longrightarrow>
     main_step cfg s (s\<lparr>customers := (customers s)(Suc i := CustLoop 0),
                        main_thread := MainCreateCustomers (Suc i)\<rparr>)"
| customers_created:
    "main_thread s = MainCreateCustomers i \<Longrightarrow> \<not> i < NUM_CUSTOMERS cfg \<Longrightarrow>
     main_step cfg s (s\<lparr>main_thread := MainCreateCooks 0\<rparr>)"
| create_cook:
    "main_thread s = MainCreateCooks i \<Longrightarrow> i < NUM_COOKS cfg \<Longrightarrow>
     main_step cfg s (s\<lparr>cooks := (cooks s)(Suc i := CookLoop 0),
                        main_thread := MainCreateCooks (Suc i)\<rparr>)"
| cooks_created:
    "main_thread s = MainCreateCooks i \<Longrightarrow> \<not> i < NUM_COOKS cfg \<Longrightarrow>
     main_step cfg s (s\<lparr>main_thread := MainJoinCustomers 0\<rparr>)"
| join_customer:
    "main_thread s = MainJoinCustomers i \<Longrightarrow> i < NUM_CUSTOMERS cfg \<Longrightarrow>
     customers s (Suc i) = CustExited \<Longrightarrow>
     main_step cfg s (s\<lparr>main_thread := MainJoinCustomers (Suc i)\<rparr>)"
| customers_joined:
    "main_thread s = MainJoinCustomers i \<Longrightarrow> \<not> i < NUM_CUSTOMERS cfg \<Longrightarrow>
     main_step cfg s (s\<lparr>main_thread := MainJoinCooks 0\<rparr>)"
| join_cook:
    "main_thread s = MainJoinCooks i \<Longrightarrow> i < NUM_COOKS cfg \<Longrightarrow>
     cooks s (Suc i) = CookExited j \<Longrightarrow>
     main_step cfg s (s\<lparr>main_thread := MainJoinCooks (Suc i)\<rparr>)"
| cooks_joined:
    "main_thread s = MainJoinCooks i \<Longrightarrow> \<not> i < NUM_COOKS cfg \<Longrightarrow>
     main_step cfg s (s\<lparr>main_thread := MainClose\<rparr>)"
| close_ok:
    "main_thread s = MainClose \<Longrightarrow> CloseRestaurant (bcb s) = Inr freed \<Longrightarrow>
     main_step cfg s (s\<lparr>main_thread := MainReturned\<rparr>)"
| close_fail:
    "main_thread s = MainClose \<Longrightarrow> CloseRestaurant (bcb s) = Inl e \<Longrightarrow>
     main_step cfg s (s\<lparr>main_thread := MainAborted e\<rparr>)"

section \<open>The system\<close>

text \<open>
  The state right after \<open>OpenRestaurant\<close> in \<open>main\<close>; a system step is a step of
  one thread, or, when \<open>sp\<close> holds, a spurious wake-up of a waiting thread.
\<close>

definition sys_init :: "config \<Rightarrow> sys" where
  "sys_init cfg =
     \<lparr>bcb = OpenRestaurant (BENSCHILLIBOWL_SIZE cfg) (EXPECTED_NUM_ORDERS cfg),
      customers = (\<lambda>c. CustNotStarted), cooks = (\<lambda>k. CookNotStarted),
      main_thread = MainCreateCustomers 0, placed_log = [], served_log = []\<rparr>"

inductive sys_step :: "config \<Rightarrow> bool \<Rightarrow> sys \<Rightarrow> sys \<Rightarrow> bool" where
  customer: "customer_step cfg c s s' \<Longrightarrow> sys_step cfg sp s s'"
| cook: "cook_step k s s' \<Longrightarrow> sys_step cfg sp s s'"
| main: "main_step cfg s s' \<Longrightarrow> sys_step cfg sp s s'"
| spurious_customer:
    "sp \<Longrightarrow> customers s c = CustWaiting i ord \<Longrightarrow>
     sys_step cfg sp s (s\<lparr>customers := (customers s)(c := CustAdding i ord)\<rparr>)"
| spurious_cook:
    "sp \<Longrightarrow> cooks s k = CookWaiting j \<Longrightarrow>
     sys_step cfg sp s (s\<lparr>cooks := (cooks s)(k := CookLoop j)\<rparr>)"

inductive reach :: "config \<Rightarrow> bool \<Rightarrow> sys \<Rightarrow> bool" where
  init: "reach cfg sp (sys_init cfg)"
| step: "reach cfg sp s \<Longrightarrow> sys_step cfg sp s s' \<Longrightarrow> reach cfg sp s'"

inductive_cases wakesE: "wakes nt p p'"
inductive_cases customer_stepE: "customer_step cfg c s s'"
inductive_cases cook_stepE: "cook_step k s s'"
inductive_cases main_stepE: "main_step cfg s s'"

end
