(* ===== verification/Invariants.thy ===== *)
theory Invariants
  imports Monitor
begin

text \<open>
  The invariant of the thread system of \<open>Monitor\<close> and its proof by induction over
  the reachable states.  It is the conjunction of: well-formed thread states
  (\<open>inv_threads\<close>); the restaurant invariant with the configured capacity and
  total, and the next order number equal to the number of orders the customers
  have placed (\<open>inv_queue\<close>); the two logs (\<open>inv_logs\<close>: FIFO and gap-free numbering);
  permanence of the drained state once a cook has returned (\<open>inv_drained\<close>); the
  three no-lost-wake-up facts (\<open>inv_awake\<close>); and what \<open>main\<close> has created and
  joined (\<open>inv_main\<close>).  Every conjunct holds with and without spurious wake-ups.
\<close>

section \<open>Definitions\<close>

definition valid_config :: "config \<Rightarrow> bool" where
  "valid_config cfg \<longleftrightarrow> 0 < BENSCHILLIBOWL_SIZE cfg \<and> 0 < NUM_COOKS cfg"

text \<open>The number of orders a customer has placed, read off its program counter.\<close>

fun placed :: "config \<Rightarrow> cust_pc \<Rightarrow> nat" where
  "placed cfg CustNotStarted = 0"
| "placed cfg (CustLoop i) = i"
| "placed cfg (CustAdding i ord) = i"
| "placed cfg (CustWaiting i ord) = i"
| "placed cfg (CustPrinting i ord) = i"
| "placed cfg CustExited = ORDERS_PER_CUSTOMER cfg"

fun cust_ok :: "config \<Rightarrow> cust_pc \<Rightarrow> bool" where
  "cust_ok cfg (CustLoop i) = (i \<le> ORDERS_PER_CUSTOMER cfg)"
| "cust_ok cfg (CustAdding i ord) = (i < ORDERS_PER_CUSTOMER cfg)"
| "cust_ok cfg (CustWaiting i ord) = (i < ORDERS_PER_CUSTOMER cfg)"
| "cust_ok cfg (CustPrinting i ord) = (i \<le> ORDERS_PER_CUSTOMER cfg)"
| "cust_ok cfg p = True"

fun cook_exited :: "cook_pc \<Rightarrow> bool" where
  "cook_exited (CookExited j) = True"
| "cook_exited p = False"

fun cook_looping :: "cook_pc \<Rightarrow> bool" where
  "cook_looping (CookLoop j) = True"
| "cook_looping p = False"

fun cust_adding :: "cust_pc \<Rightarrow> bool" where
  "cust_adding (CustAdding i ord) = True"
| "cust_adding p = False"

definition customers_total :: "config \<Rightarrow> sys \<Rightarrow> nat" where
  "customers_total cfg s = (\<Sum>c\<in>{1..NUM_CUSTOMERS cfg}. placed cfg (customers s c))"

definition inv_threads :: "config \<Rightarrow> sys \<Rightarrow> bool" where
  "inv_threads cfg s \<longleftrightarrow>
     (\<forall>c. customers s c \<noteq> CustNotStarted \<longrightarrow> c \<in> {1..NUM_CUSTOMERS cfg}) \<and>
     (\<forall>k. cooks s k \<noteq> CookNotStarted \<longrightarrow> k \<in> {1..NUM_COOKS cfg}) \<and>
     (\<forall>c. cust_ok cfg (customers s c)) \<and>
     (\<forall>k. cooks s k \<noteq> CookCrashed)"

definition inv_queue :: "config \<Rightarrow> sys \<Rightarrow> bool" where
  "inv_queue cfg s \<longleftrightarrow>
     restaurant_inv (bcb s) \<and>
     max_size (bcb s) = BENSCHILLIBOWL_SIZE cfg \<and>
     expected_num_orders (bcb s) = EXPECTED_NUM_ORDERS cfg \<and>
     next_order_number (bcb s) = int (customers_total cfg s) + 1"

definition inv_logs :: "sys \<Rightarrow> bool" where
  "inv_logs s \<longleftrightarrow>
     served_log s @ orders (bcb s) = placed_log s \<and>
     map order_number (placed_log s) = [1 .. int (length (placed_log s))] \<and>
     orders_handled (bcb s) = int (length (served_log s))"

definition inv_drained :: "config \<Rightarrow> sys \<Rightarrow> bool" where
  "inv_drained cfg s \<longleftrightarrow>
     (\<exists>k. cook_exited (cooks s k)) \<longrightarrow>
       orders (bcb s) = [] \<and> orders_handled (bcb s) = EXPECTED_NUM_ORDERS cfg"

definition inv_awake :: "config \<Rightarrow> sys \<Rightarrow> bool" where
  "inv_awake cfg s \<longleftrightarrow>
     (orders (bcb s) \<noteq> [] \<longrightarrow> (\<exists>k\<in>{1..NUM_COOKS cfg}. \<not> cook_waiting (cooks s k))) \<and>
     ((\<exists>c. cust_waiting (customers s c)) \<longrightarrow>
        orders (bcb s) \<noteq> [] \<or> (\<exists>c. cust_adding (customers s c))) \<and>
     ((\<exists>k. cook_waiting (cooks s k)) \<and> EXPECTED_NUM_ORDERS cfg \<le> orders_handled (bcb s) \<longrightarrow>
        (\<exists>k. cook_looping (cooks s k)))"

definition all_customers :: "config \<Rightarrow> sys \<Rightarrow> (cust_pc \<Rightarrow> bool) \<Rightarrow> nat \<Rightarrow> bool" where
  "all_customers cfg s P n \<longleftrightarrow> (\<forall>c\<in>{1..n}. P (customers s c))"

definition all_cooks :: "config \<Rightarrow> sys \<Rightarrow> (cook_pc \<Rightarrow> bool) \<Rightarrow> nat \<Rightarrow> bool" where
  "all_cooks cfg s P n \<longleftrightarrow> (\<forall>k\<in>{1..n}. P (cooks s k))"

definition inv_main :: "config \<Rightarrow> sys \<Rightarrow> bool" where
  "inv_main cfg s \<longleftrightarrow>
     (case main_thread s of
        MainCreateCustomers i \<Rightarrow> i \<le> NUM_CUSTOMERS cfg \<and>
          (\<forall>c. customers s c \<noteq> CustNotStarted \<longleftrightarrow> c \<in> {1..i}) \<and>
          (\<forall>k. cooks s k = CookNotStarted)
      | MainCreateCooks i \<Rightarrow> i \<le> NUM_COOKS cfg \<and>
          all_customers cfg s (\<lambda>p. p \<noteq> CustNotStarted) (NUM_CUSTOMERS cfg) \<and>
          (\<forall>k. cooks s k \<noteq> CookNotStarted \<longleftrightarrow> k \<in> {1..i})
      | MainJoinCustomers i \<Rightarrow> i \<le> NUM_CUSTOMERS cfg \<and>
          all_customers cfg s (\<lambda>p. p \<noteq> CustNotStarted) (NUM_CUSTOMERS cfg) \<and>
          all_cooks cfg s (\<lambda>p. p \<noteq> CookNotStarted) (NUM_COOKS cfg) \<and>
          all_customers cfg s (\<lambda>p. p = CustExited) i
      | MainJoinCooks i \<Rightarrow> i \<le> NUM_COOKS cfg \<and>
          all_customers cfg s (\<lambda>p. p = CustExited) (NUM_CUSTOMERS cfg) \<and>
          all_cooks cfg s (\<lambda>p. p \<noteq> CookNotStarted) (NUM_COOKS cfg) \<and>
          all_cooks cfg s cook_exited i
      | MainClose \<Rightarrow>
          all_customers cfg s (\<lambda>p. p = CustExited) (NUM_CUSTOMERS cfg) \<and>
          all_cooks cfg s cook_exited (NUM_COOKS cfg)
      | MainReturned \<Rightarrow>
          all_customers cfg s (\<lambda>p. p = CustExited) (NUM_CUSTOMERS cfg) \<and>
          all_cooks cfg s cook_exited (NUM_COOKS cfg)
      | MainAborted e \<Rightarrow> False)"

definition sys_inv :: "config \<Rightarrow> sys \<Rightarrow> bool" where
  "sys_inv cfg s \<longleftrightarrow>
     inv_threads cfg s \<and> inv_queue cfg s \<and> inv_logs s \<and> inv_drained cfg s \<and>
     inv_awake cfg s \<and> inv_main cfg s"

declare inv_threads_def [sys_invs] inv_queue_def [sys_invs] inv_logs_def [sys_invs]
  inv_drained_def [sys_invs] inv_awake_def [sys_invs] inv_main_def [sys_invs]

section \<open>Condition variables\<close>

lemma wakes_signal_cooks:
  assumes "wakes (Signal can_get_orders) (cs, ks) (cs', ks')"
  shows "cs' = cs \<and>
         (ks' = ks \<and> (\<forall>k. \<not> cook_waiting (ks k)) \<or>
          (\<exists>k j. ks k = CookWaiting j \<and> ks' = ks(k := CookLoop j)))"
  using assms by (cases rule: wakes.cases) auto

lemma wakes_signal_customers:
  assumes "wakes (Signal can_add_orders) (cs, ks) (cs', ks')"
  shows "ks' = ks \<and>
         (cs' = cs \<and> (\<forall>c. \<not> cust_waiting (cs c)) \<or>
          (\<exists>c i ord. cs c = CustWaiting i ord \<and> cs' = cs(c := CustAdding i ord)))"
  using assms by (cases rule: wakes.cases) auto

lemma wakes_broadcast_cooks:
  assumes "wakes (Broadcast can_get_orders) (cs, ks) (cs', ks')"
  shows "cs' = cs \<and> ks' = wake_cooks ks"
  using assms by (cases rule: wakes.cases) auto

lemma wake_cooks_not_waiting: "\<not> cook_waiting (wake_cooks ks k)"
  by (cases "ks k") (simp_all add: wake_cooks_def)

lemma wake_cooks_cases:
  "wake_cooks ks k = ks k \<or> (\<exists>j. ks k = CookWaiting j \<and> wake_cooks ks k = CookLoop j)"
  by (cases "ks k") (simp_all add: wake_cooks_def)

lemma sys_init_inv:
  assumes "valid_config cfg"
  shows "sys_inv cfg (sys_init cfg)"
  using assms
  by (simp add: sys_inv_def sys_invs sys_init_def valid_config_def customers_total_def
                OpenRestaurant_def restaurant_inv_def)


section \<open>The thread steps, case by case\<close>

text \<open>
  The step rules with the outcome of the critical section and the notification it
  sends resolved: \<open>AddOrder\<close> signals \<open>can_get_orders\<close>, \<open>GetOrder\<close> signals
  \<open>can_add_orders\<close> or broadcasts \<open>can_get_orders\<close>, and under the restaurant
  invariant \<open>GetOrder\<close> never dereferences \<^verbatim>\<open>NULL\<close>.
\<close>

lemma customer_step_cases:
  assumes "customer_step cfg c s s'"
  obtains (new_order) i r nr where "customers s c = CustLoop i" "i < ORDERS_PER_CUSTOMER cfg"
      "s' = s\<lparr>customers := (customers s)(c := CustAdding i
              \<lparr>menu_item = PickRandomMenuItem r, customer_id = int c, order_number = nr\<rparr>)\<rparr>"
  | (loop_done) i where "customers s c = CustLoop i" "\<not> i < ORDERS_PER_CUSTOMER cfg"
      "s' = s\<lparr>customers := (customers s)(c := CustExited)\<rparr>"
  | (add_wait) i ord where "customers s c = CustAdding i ord" "IsFull (bcb s)"
      "s' = s\<lparr>customers := (customers s)(c := CustWaiting i ord)\<rparr>"
  | (add_return) i ord ks' where "customers s c = CustAdding i ord" "\<not> IsFull (bcb s)"
      "ks' = cooks s \<and> (\<forall>k. \<not> cook_waiting (cooks s k)) \<or>
       (\<exists>k j. cooks s k = CookWaiting j \<and> ks' = (cooks s)(k := CookLoop j))"
      "s' = s\<lparr>bcb := (bcb s)\<lparr>next_order_number := next_order_number (bcb s) + 1,
                 orders := orders (bcb s) @ [ord\<lparr>order_number := next_order_number (bcb s)\<rparr>],
                 current_size := current_size (bcb s) + 1\<rparr>,
              customers := (customers s)(c := CustPrinting (Suc i)
                 (ord\<lparr>order_number := next_order_number (bcb s)\<rparr>)), cooks := ks',
              placed_log := placed_log s @ [ord\<lparr>order_number := next_order_number (bcb s)\<rparr>]\<rparr>"
  | (print) i ord where "customers s c = CustPrinting i ord"
      "s' = s\<lparr>customers := (customers s)(c := CustLoop i)\<rparr>"
  using assms
proof (cases rule: customer_step.cases)
  case (cust_new_order i r nr)
  then show ?thesis using new_order by blast
next
  case (cust_loop_done i)
  then show ?thesis using loop_done by blast
next
  case (cust_add_wait i ord cv)
  then show ?thesis using add_wait by (simp add: AddOrder_Blocks)
next
  case (cust_add_return i ord n r' nt cs' ks')
  note ret = AddOrder_Returns [OF cust_add_return(3)]
  with cust_add_return(4) have "cs' = (customers s)(c := CustPrinting (Suc i) (ord\<lparr>order_number := n\<rparr>)) \<and>
      (ks' = cooks s \<and> (\<forall>k. \<not> cook_waiting (cooks s k)) \<or>
       (\<exists>k j. cooks s k = CookWaiting j \<and> ks' = (cooks s)(k := CookLoop j)))"
    by (auto dest: wakes_signal_cooks)
  with ret cust_add_return(1,2) show ?thesis using add_return by auto
next
  case (cust_print i ord)
  then show ?thesis using print by blast
qed

lemma cook_step_cases:
  assumes "cook_step k s s'" and "restaurant_inv (bcb s)"
  obtains (get_wait) j where "cooks s k = CookLoop j" "orders (bcb s) = []"
      "orders_handled (bcb s) < expected_num_orders (bcb s)"
      "s' = s\<lparr>cooks := (cooks s)(k := CookWaiting j)\<rparr>"
  | (get_null) j where "cooks s k = CookLoop j" "orders (bcb s) = []"
      "expected_num_orders (bcb s) \<le> orders_handled (bcb s)"
      "s' = s\<lparr>cooks := wake_cooks ((cooks s)(k := CookExited j))\<rparr>"
  | (get_order) j ord tail cs' where "cooks s k = CookLoop j" "orders (bcb s) = ord # tail"
      "cs' = customers s \<and> (\<forall>c. \<not> cust_waiting (customers s c)) \<or>
       (\<exists>c i ord. customers s c = CustWaiting i ord \<and> cs' = (customers s)(c := CustAdding i ord))"
      "s' = s\<lparr>bcb := (bcb s)\<lparr>orders := tail, current_size := current_size (bcb s) - 1,
                 orders_handled := orders_handled (bcb s) + 1\<rparr>,
              customers := cs', cooks := (cooks s)(k := CookLoop (Suc j)),
              served_log := served_log s @ [ord]\<rparr>"
  using assms(1)
proof (cases rule: cook_step.cases)
  case (cook_get_wait j cv)
  then show ?thesis using get_wait assms(2) by (simp add: GetOrder_Blocks restaurant_inv_nonempty)
next
  case (cook_get_null j r' nt cs' ks')
  note ret = GetOrder_Returns_None [OF cook_get_null(3)]
  with cook_get_null(4) have "cs' = customers s \<and> ks' = wake_cooks ((cooks s)(k := CookExited j))"
    by (auto dest: wakes_broadcast_cooks)
  with ret cook_get_null(1,2) assms(2) show ?thesis
    using get_null by (auto simp: restaurant_inv_nonempty)
next
  case (cook_get_order j ord r' nt cs' ks')
  obtain tail where ret: "orders (bcb s) = ord # tail" "nt = Signal can_add_orders"
      "r' = (bcb s)\<lparr>orders := tail, current_size := current_size (bcb s) - 1,
                     orders_handled := orders_handled (bcb s) + 1\<rparr>"
    using GetOrder_Returns_Some [OF cook_get_order(3)] by blast
  with cook_get_order(4) have ks: "ks' = (cooks s)(k := CookLoop (Suc j))"
    and cs: "cs' = customers s \<and> (\<forall>c. \<not> cust_waiting (customers s c)) \<or>
       (\<exists>c i ord. customers s c = CustWaiting i ord \<and> cs' = (customers s)(c := CustAdding i ord))"
    by (auto dest: wakes_signal_customers)
  show ?thesis
    by (rule get_order [OF cook_get_order(2) ret(1) cs]) (simp add: cook_get_order(1) ks ret(3))
next
  case (cook_get_crash j)
  with assms(2) show ?thesis by (simp add: GetOrder_not_NullDeref)
qed

section \<open>Counting the orders placed\<close>

lemma customers_total_upd_same:
  assumes "placed cfg p = placed cfg (customers s c)"
  shows "customers_total cfg (s\<lparr>customers := (customers s)(c := p)\<rparr>) = customers_total cfg s"
  using assms by (auto simp: customers_total_def intro!: sum.cong)

lemma customers_total_upd_Suc:
  assumes "placed cfg p = Suc (placed cfg (customers s c))" and "c \<in> {1..NUM_CUSTOMERS cfg}"
  shows "customers_total cfg (s\<lparr>customers := (customers s)(c := p)\<rparr>) = Suc (customers_total cfg s)"
  unfolding customers_total_def using assms by (intro sum_Suc_at) auto

lemma placed_le: "cust_ok cfg p \<Longrightarrow> placed cfg p \<le> ORDERS_PER_CUSTOMER cfg"
  by (cases p) simp_all

lemma customers_total_le:
  assumes "inv_threads cfg s"
  shows "customers_total cfg s \<le> NUM_CUSTOMERS cfg * ORDERS_PER_CUSTOMER cfg"
proof -
  have "\<forall>c\<in>{1..NUM_CUSTOMERS cfg}. placed cfg (customers s c) \<le> ORDERS_PER_CUSTOMER cfg"
    using assms by (simp add: inv_threads_def placed_le)
  then show ?thesis unfolding customers_total_def using sum_le_each_bound by fastforce
qed

lemma customers_total_lt:
  assumes "inv_threads cfg s" and "customers s c = CustAdding i ord \<or> customers s c = CustWaiting i ord"
  shows "customers_total cfg s < NUM_CUSTOMERS cfg * ORDERS_PER_CUSTOMER cfg"
proof (rule ccontr)
  assume "\<not> ?thesis"
  with customers_total_le [OF assms(1)]
  have eq: "(\<Sum>c\<in>{1..NUM_CUSTOMERS cfg}. placed cfg (customers s c)) =
            card {1..NUM_CUSTOMERS cfg} * ORDERS_PER_CUSTOMER cfg"
    by (simp add: customers_total_def)
  have le: "\<forall>c\<in>{1..NUM_CUSTOMERS cfg}. placed cfg (customers s c) \<le> ORDERS_PER_CUSTOMER cfg"
    using assms(1) by (simp add: inv_threads_def placed_le)
  have c: "c \<in> {1..NUM_CUSTOMERS cfg}" and ok: "cust_ok cfg (customers s c)"
    using assms by (auto simp: inv_threads_def)
  from sum_eq_each_bound [OF _ le eq] c have "placed cfg (customers s c) = ORDERS_PER_CUSTOMER cfg"
    by simp
  with ok assms(2) show False by auto
qed

lemma inv_queue_counts:
  assumes "inv_queue cfg s"
  shows "orders_handled (bcb s) + int (length (orders (bcb s))) = int (customers_total cfg s)"
  using assms by (simp add: inv_queue_def restaurant_inv_def)

section \<open>Preservation, one kind of step at a time\<close>

lemma inv_main_frame:
  assumes "inv_main cfg s" and "main_thread s' = main_thread s"
    and "\<forall>c. (customers s' c = CustNotStarted) = (customers s c = CustNotStarted)"
    and "\<forall>c. customers s c = CustExited \<longrightarrow> customers s' c = CustExited"
    and "\<forall>k. (cooks s' k = CookNotStarted) = (cooks s k = CookNotStarted)"
    and "\<forall>k. cook_exited (cooks s k) \<longrightarrow> cook_exited (cooks s' k)"
  shows "inv_main cfg s'"
  using assms unfolding inv_main_def all_customers_def all_cooks_def
  by (cases "main_thread s") simp_all

lemma inv_frames [simp]:
  "inv_logs (s\<lparr>customers := cs\<rparr>) = inv_logs s"
  "inv_logs (s\<lparr>cooks := ks\<rparr>) = inv_logs s"
  "inv_logs (s\<lparr>main_thread := m\<rparr>) = inv_logs s"
  "inv_drained cfg (s\<lparr>customers := cs\<rparr>) = inv_drained cfg s"
  "inv_drained cfg (s\<lparr>main_thread := m\<rparr>) = inv_drained cfg s"
  "inv_queue cfg (s\<lparr>cooks := ks\<rparr>) = inv_queue cfg s"
  "inv_queue cfg (s\<lparr>main_thread := m\<rparr>) = inv_queue cfg s"
  "inv_awake cfg (s\<lparr>main_thread := m\<rparr>) = inv_awake cfg s"
  "inv_threads cfg (s\<lparr>main_thread := m\<rparr>) = inv_threads cfg s"
  by (simp_all add: sys_invs customers_total_def)

lemma inv_awake_customers_adding:
  assumes "inv_awake cfg s" and "cust_adding (cs c)"
  shows "inv_awake cfg (s\<lparr>customers := cs\<rparr>)"
  using assms unfolding inv_awake_def by simp blast

lemma inv_awake_customer_idle:
  assumes "inv_awake cfg s" and "\<not> cust_adding (customers s c)" and "\<not> cust_waiting p"
  shows "inv_awake cfg (s\<lparr>customers := (customers s)(c := p)\<rparr>)"
proof -
  have "\<exists>c'. cust_adding (((customers s)(c := p)) c')"
    if w: "\<exists>c'. cust_waiting (((customers s)(c := p)) c')" and e: "orders (bcb s) = []"
  proof -
    from w assms(3) obtain c' where "cust_waiting (customers s c')" by (auto split: if_splits)
    with assms(1) e obtain c'' where "cust_adding (customers s c'')" by (auto simp: inv_awake_def)
    with assms(2) have "cust_adding (((customers s)(c := p)) c'')" by (cases "c'' = c") simp_all
    then show ?thesis ..
  qed
  with assms(1) show ?thesis unfolding inv_awake_def by auto
qed

lemma inv_awake_customers_nonempty:
  assumes "inv_awake cfg s" and "orders (bcb s) \<noteq> []"
  shows "inv_awake cfg (s\<lparr>customers := cs\<rparr>)"
  using assms unfolding inv_awake_def by simp

lemma sys_invD:
  assumes "sys_inv cfg s"
  shows "inv_threads cfg s" "inv_queue cfg s" "inv_logs s" "inv_drained cfg s"
    "inv_awake cfg s" "inv_main cfg s"
  using assms by (simp_all add: sys_inv_def)

lemma new_order_inv:
  assumes inv: "sys_inv cfg s" and c: "customers s c = CustLoop i" and i: "i < ORDERS_PER_CUSTOMER cfg"
    and s': "s' = s\<lparr>customers := (customers s)(c := CustAdding i ord)\<rparr>"
  shows "sys_inv cfg s'"
proof -
  from inv c have cr: "c \<in> {1..NUM_CUSTOMERS cfg}" by (auto simp: sys_inv_def inv_threads_def)
  have "inv_threads cfg s'" using inv cr i unfolding s' sys_inv_def inv_threads_def by auto
  moreover have "inv_queue cfg s'"
    using inv c unfolding s' sys_inv_def inv_queue_def by (simp add: customers_total_upd_same)
  moreover have "inv_logs s'" "inv_drained cfg s'" using inv by (simp_all add: s' sys_inv_def)
  moreover have "inv_awake cfg s'"
    unfolding s' by (rule inv_awake_customers_adding [OF sys_invD(5) [OF inv], where c = c]) simp
  moreover have "inv_main cfg s'"
    using c by (rule_tac inv_main_frame [OF sys_invD(6) [OF inv]]) (auto simp: s')
  ultimately show ?thesis by (simp add: sys_inv_def)
qed

lemma loop_done_inv:
  assumes inv: "sys_inv cfg s" and c: "customers s c = CustLoop i" and i: "\<not> i < ORDERS_PER_CUSTOMER cfg"
    and s': "s' = s\<lparr>customers := (customers s)(c := CustExited)\<rparr>"
  shows "sys_inv cfg s'"
proof -
  note I = sys_invD [OF inv]
  from I(1) c have cr: "c \<in> {1..NUM_CUSTOMERS cfg}" and "i \<le> ORDERS_PER_CUSTOMER cfg"
    by (auto simp: inv_threads_def dest: spec [of _ c])
  with i have ii: "i = ORDERS_PER_CUSTOMER cfg" by simp
  have "inv_threads cfg s'" using I(1) cr unfolding s' inv_threads_def by auto
  moreover have "inv_queue cfg s'"
    using I(2) c ii unfolding s' inv_queue_def by (simp add: customers_total_upd_same)
  moreover have "inv_logs s'" "inv_drained cfg s'" using I(3,4) by (simp_all add: s')
  moreover have "inv_awake cfg s'"
    unfolding s' using c by (intro inv_awake_customer_idle [OF I(5)]) simp_all
  moreover have "inv_main cfg s'"
    using c by (rule_tac inv_main_frame [OF I(6)]) (auto simp: s')
  ultimately show ?thesis by (simp add: sys_inv_def)
qed

lemma print_inv:
  assumes inv: "sys_inv cfg s" and c: "customers s c = CustPrinting i ord"
    and s': "s' = s\<lparr>customers := (customers s)(c := CustLoop i)\<rparr>"
  shows "sys_inv cfg s'"
proof -
  note I = sys_invD [OF inv]
  from I(1) c have cr: "c \<in> {1..NUM_CUSTOMERS cfg}" and "i \<le> ORDERS_PER_CUSTOMER cfg"
    by (auto simp: inv_threads_def dest: spec [of _ c])
  then have "inv_threads cfg s'" using I(1) unfolding s' inv_threads_def by auto
  moreover have "inv_queue cfg s'"
    using I(2) c unfolding s' inv_queue_def by (simp add: customers_total_upd_same)
  moreover have "inv_logs s'" "inv_drained cfg s'" using I(3,4) by (simp_all add: s')
  moreover have "inv_awake cfg s'"
    unfolding s' using c by (intro inv_awake_customer_idle [OF I(5)]) simp_all
  moreover have "inv_main cfg s'"
    using c by (rule_tac inv_main_frame [OF I(6)]) (auto simp: s')
  ultimately show ?thesis by (simp add: sys_inv_def)
qed

lemma add_wait_inv:
  assumes inv: "sys_inv cfg s" and c: "customers s c = CustAdding i ord" and full: "IsFull (bcb s)"
    and s': "s' = s\<lparr>customers := (customers s)(c := CustWaiting i ord)\<rparr>"
  shows "sys_inv cfg s'"
proof -
  note I = sys_invD [OF inv]
  have ne: "orders (bcb s) \<noteq> []"
    using I(2) full by (auto simp: inv_queue_def restaurant_inv_def IsFull_def)
  have "inv_threads cfg s'" using I(1) c unfolding s' inv_threads_def by (auto dest: spec [of _ c])
  moreover have "inv_queue cfg s'"
    using I(2) c unfolding s' inv_queue_def by (simp add: customers_total_upd_same)
  moreover have "inv_logs s'" "inv_drained cfg s'" using I(3,4) by (simp_all add: s')
  moreover have "inv_awake cfg s'"
    unfolding s' using ne by (rule inv_awake_customers_nonempty [OF I(5)])
  moreover have "inv_main cfg s'"
    using c by (rule_tac inv_main_frame [OF I(6)]) (auto simp: s')
  ultimately show ?thesis by (simp add: sys_inv_def)
qed

lemma signal_cooks_props:
  assumes inv: "inv_threads cfg s" and vc: "valid_config cfg"
    and ks: "ks' = cooks s \<and> (\<forall>k. \<not> cook_waiting (cooks s k)) \<or>
             (\<exists>k j. cooks s k = CookWaiting j \<and> ks' = (cooks s)(k := CookLoop j))"
  shows "\<forall>k. (ks' k = CookNotStarted) = (cooks s k = CookNotStarted)"
    and "\<forall>k. cook_exited (ks' k) = cook_exited (cooks s k)"
    and "\<forall>k. ks' k \<noteq> CookCrashed"
    and "\<exists>k\<in>{1..NUM_COOKS cfg}. \<not> cook_waiting (ks' k)"
proof -
  show "\<forall>k. (ks' k = CookNotStarted) = (cooks s k = CookNotStarted)"
    and "\<forall>k. cook_exited (ks' k) = cook_exited (cooks s k)"
    and "\<forall>k. ks' k \<noteq> CookCrashed"
    using ks inv by (auto simp: inv_threads_def split: if_splits)
  show "\<exists>k\<in>{1..NUM_COOKS cfg}. \<not> cook_waiting (ks' k)"
  proof (cases "ks' = cooks s \<and> (\<forall>k. \<not> cook_waiting (cooks s k))")
    case True
    with vc show ?thesis by (auto simp: valid_config_def intro: bexI [of _ 1])
  next
    case False
    with ks obtain k j where k: "cooks s k = CookWaiting j" and ks': "ks' = (cooks s)(k := CookLoop j)"
      by blast
    from k inv have "k \<in> {1..NUM_COOKS cfg}" by (auto simp: inv_threads_def)
    with ks' show ?thesis by force
  qed
qed

lemma add_return_inv:
  assumes inv: "sys_inv cfg s" and vc: "valid_config cfg"
    and c: "customers s c = CustAdding i ord" and nf: "\<not> IsFull (bcb s)"
    and ks: "ks' = cooks s \<and> (\<forall>k. \<not> cook_waiting (cooks s k)) \<or>
             (\<exists>k j. cooks s k = CookWaiting j \<and> ks' = (cooks s)(k := CookLoop j))"
    and s': "s' = s\<lparr>bcb := (bcb s)\<lparr>next_order_number := next_order_number (bcb s) + 1,
                 orders := orders (bcb s) @ [ord\<lparr>order_number := next_order_number (bcb s)\<rparr>],
                 current_size := current_size (bcb s) + 1\<rparr>,
              customers := (customers s)(c := CustPrinting (Suc i)
                 (ord\<lparr>order_number := next_order_number (bcb s)\<rparr>)), cooks := ks',
              placed_log := placed_log s @ [ord\<lparr>order_number := next_order_number (bcb s)\<rparr>]\<rparr>"
  shows "sys_inv cfg s'"
proof -
  note I = sys_invD [OF inv]
  note K = signal_cooks_props [OF I(1) vc ks]
  from I(1) c have cr: "c \<in> {1..NUM_CUSTOMERS cfg}" and i: "i < ORDERS_PER_CUSTOMER cfg"
    by (auto simp: inv_threads_def dest: spec [of _ c])
  have lt: "customers_total cfg s < NUM_CUSTOMERS cfg * ORDERS_PER_CUSTOMER cfg"
    using customers_total_lt [OF I(1)] c by blast
  have ltI: "int (customers_total cfg s) < EXPECTED_NUM_ORDERS cfg"
    unfolding EXPECTED_NUM_ORDERS_def using lt by (simp only: of_nat_less_iff)
  have cnt: "orders_handled (bcb s) + int (length (orders (bcb s))) = int (customers_total cfg s)"
    by (rule inv_queue_counts [OF I(2)])
  have tot: "customers_total cfg s' = Suc (customers_total cfg s)"
  proof -
    have "customers_total cfg s' =
          customers_total cfg (s\<lparr>customers := (customers s)(c := CustPrinting (Suc i)
            (ord\<lparr>order_number := next_order_number (bcb s)\<rparr>))\<rparr>)"
      by (simp add: customers_total_def s')
    also have "\<dots> = Suc (customers_total cfg s)"
      using c cr by (intro customers_total_upd_Suc) simp_all
    finally show ?thesis .
  qed
  have "inv_threads cfg s'" using I(1) cr i K(1,3) unfolding s' inv_threads_def by auto
  moreover have "inv_queue cfg s'"
  proof -
    from I(2) have "restaurant_inv (bcb s)" by (simp add: inv_queue_def)
    from restaurant_inv_enqueue [OF this nf] have "restaurant_inv (bcb s')" by (simp add: s')
    with I(2) tot show ?thesis unfolding inv_queue_def by (simp add: s')
  qed
  moreover have "inv_logs s'"
  proof -
    have len: "length (placed_log s) = length (served_log s) + length (orders (bcb s))"
      using I(3) by (metis inv_logs_def length_append)
    have nx: "next_order_number (bcb s) = int (length (placed_log s)) + 1"
      using I(2,3) len by (simp add: inv_queue_def restaurant_inv_def inv_logs_def)
    have "[1 .. int (length (placed_log s))] @ [int (length (placed_log s)) + 1] =
          [1 .. int (length (placed_log s)) + 1]"
      by (rule upto_snoc) simp
    then show ?thesis using I(3) nx unfolding s' inv_logs_def by (simp add: ac_simps)
  qed
  moreover have "inv_drained cfg s'"
  proof -
    have "\<not> (\<exists>k. cook_exited (cooks s k))"
    proof
      assume "\<exists>k. cook_exited (cooks s k)"
      with I(4) have "orders (bcb s) = [] \<and> orders_handled (bcb s) = EXPECTED_NUM_ORDERS cfg"
        by (simp add: inv_drained_def)
      with cnt ltI show False by simp
    qed
    with K(2) show ?thesis by (simp add: inv_drained_def s')
  qed
  moreover have "inv_awake cfg s'"
  proof -
    have "orders_handled (bcb s) < EXPECTED_NUM_ORDERS cfg"
      using cnt ltI by simp
    with K(4) show ?thesis by (simp add: inv_awake_def s')
  qed
  moreover have "inv_main cfg s'"
    using c K(1,2) by (rule_tac inv_main_frame [OF I(6)]) (auto simp: s')
  ultimately show ?thesis by (simp add: sys_inv_def)
qed

lemma get_wait_inv:
  assumes inv: "sys_inv cfg s" and k: "cooks s k = CookLoop j" and e: "orders (bcb s) = []"
    and lt: "orders_handled (bcb s) < expected_num_orders (bcb s)"
    and s': "s' = s\<lparr>cooks := (cooks s)(k := CookWaiting j)\<rparr>"
  shows "sys_inv cfg s'"
proof -
  note I = sys_invD [OF inv]
  from I(1) k have kr: "k \<in> {1..NUM_COOKS cfg}" by (auto simp: inv_threads_def dest: spec [of _ k])
  have "inv_threads cfg s'" using I(1) kr unfolding s' inv_threads_def by auto
  moreover have "inv_queue cfg s'" "inv_logs s'" using I(2,3) by (simp_all add: s')
  moreover have "inv_drained cfg s'"
    using I(4) k unfolding s' inv_drained_def by (auto split: if_splits)
  moreover have "inv_awake cfg s'"
    using I(2,5) e lt unfolding s' inv_awake_def inv_queue_def by auto
  moreover have "inv_main cfg s'"
    using k by (rule_tac inv_main_frame [OF I(6)]) (auto simp: s')
  ultimately show ?thesis by (simp add: sys_inv_def)
qed

lemma get_null_inv:
  assumes inv: "sys_inv cfg s" and k: "cooks s k = CookLoop j" and e: "orders (bcb s) = []"
    and ge: "expected_num_orders (bcb s) \<le> orders_handled (bcb s)"
    and s': "s' = s\<lparr>cooks := wake_cooks ((cooks s)(k := CookExited j))\<rparr>"
  shows "sys_inv cfg s'"
proof -
  note I = sys_invD [OF inv]
  from I(1) k have kr: "k \<in> {1..NUM_COOKS cfg}" by (auto simp: inv_threads_def dest: spec [of _ k])
  have W: "\<And>k'. wake_cooks ((cooks s)(k := CookExited j)) k' =
             (if k' = k then CookExited j
              else case cooks s k' of CookWaiting j' \<Rightarrow> CookLoop j' | p \<Rightarrow> p)"
    by (simp add: wake_cooks_def)
  have "inv_threads cfg s'"
    using I(1) kr unfolding s' inv_threads_def W by (auto split: cook_pc.splits)
  moreover have "inv_queue cfg s'" "inv_logs s'" using I(2,3) by (simp_all add: s')
  moreover have "inv_drained cfg s'"
  proof -
    have "int (customers_total cfg s) \<le> EXPECTED_NUM_ORDERS cfg"
      using customers_total_le [OF I(1)] unfolding EXPECTED_NUM_ORDERS_def by (simp only: of_nat_le_iff)
    with inv_queue_counts [OF I(2)] I(2) e ge
    have "orders_handled (bcb s) = EXPECTED_NUM_ORDERS cfg" by (simp add: inv_queue_def)
    with e show ?thesis by (simp add: inv_drained_def s')
  qed
  moreover have "inv_awake cfg s'"
    using I(5) e unfolding s' inv_awake_def by (simp add: wake_cooks_not_waiting)
  moreover have "inv_main cfg s'"
    using k by (rule_tac inv_main_frame [OF I(6)]) (auto simp: s' W split: cook_pc.splits)
  ultimately show ?thesis by (simp add: sys_inv_def)
qed

lemma signal_customers_props_conj:
  assumes inv: "inv_threads cfg s"
    and cs: "cs' = customers s \<and> (\<forall>c. \<not> cust_waiting (customers s c)) \<or>
             (\<exists>c i ord. customers s c = CustWaiting i ord \<and> cs' = (customers s)(c := CustAdding i ord))"
  shows "(\<forall>c. (cs' c = CustNotStarted) = (customers s c = CustNotStarted)) \<and>
    (\<forall>c. (cs' c = CustExited) = (customers s c = CustExited)) \<and>
    (\<forall>c. cust_ok cfg (cs' c)) \<and>
    (\<forall>c. placed cfg (cs' c) = placed cfg (customers s c)) \<and>
    ((\<exists>c. cust_waiting (cs' c)) \<longrightarrow> (\<exists>c. cust_adding (cs' c)))"
  using cs
proof (elim disjE exE conjE)
  assume "cs' = customers s" and "\<forall>c. \<not> cust_waiting (customers s c)"
  with inv show ?thesis by (simp add: inv_threads_def)
next
  fix c i ord
  assume w: "customers s c = CustWaiting i ord" and e: "cs' = (customers s)(c := CustAdding i ord)"
  from inv have "cust_ok cfg (customers s c)" by (simp add: inv_threads_def)
  with w e inv show ?thesis by (auto simp: inv_threads_def)
qed

lemmas signal_customers_props = signal_customers_props_conj [THEN conjunct1]
  signal_customers_props_conj [THEN conjunct2, THEN conjunct1]
  signal_customers_props_conj [THEN conjunct2, THEN conjunct2, THEN conjunct1]
  signal_customers_props_conj [THEN conjunct2, THEN conjunct2, THEN conjunct2, THEN conjunct1]
  signal_customers_props_conj [THEN conjunct2, THEN conjunct2, THEN conjunct2, THEN conjunct2]

lemma get_order_inv:
  assumes inv: "sys_inv cfg s" and k: "cooks s k = CookLoop j" and o: "orders (bcb s) = ord # tail"
    and cs: "cs' = customers s \<and> (\<forall>c. \<not> cust_waiting (customers s c)) \<or>
             (\<exists>c i ord. customers s c = CustWaiting i ord \<and> cs' = (customers s)(c := CustAdding i ord))"
    and s': "s' = s\<lparr>bcb := (bcb s)\<lparr>orders := tail, current_size := current_size (bcb s) - 1,
                 orders_handled := orders_handled (bcb s) + 1\<rparr>,
              customers := cs', cooks := (cooks s)(k := CookLoop (Suc j)),
              served_log := served_log s @ [ord]\<rparr>"
  shows "sys_inv cfg s'"
proof -
  note I = sys_invD [OF inv]
  note C = signal_customers_props [OF I(1) cs]
  from I(1) k have kr: "k \<in> {1..NUM_COOKS cfg}" by (auto simp: inv_threads_def dest: spec [of _ k])
  have tot: "customers_total cfg s' = customers_total cfg s"
    using C(4) by (simp add: customers_total_def s')
  have "inv_threads cfg s'" using I(1) kr C(1,3) unfolding s' inv_threads_def by auto
  moreover have "inv_queue cfg s'"
  proof -
    from I(2) have "restaurant_inv (bcb s)" by (simp add: inv_queue_def)
    from restaurant_inv_dequeue [OF this o] have "restaurant_inv (bcb s')" by (simp add: s')
    with I(2) tot show ?thesis unfolding inv_queue_def by (simp add: s')
  qed
  moreover have "inv_logs s'" using I(3) o unfolding s' inv_logs_def by simp
  moreover have "inv_drained cfg s'"
  proof -
    have "\<not> cook_exited (cooks s k')" for k'
      using I(4) o by (auto simp: inv_drained_def)
    then show ?thesis by (simp add: inv_drained_def s')
  qed
  moreover have "inv_awake cfg s'"
  proof -
    have "\<exists>k'\<in>{1..NUM_COOKS cfg}. \<not> cook_waiting (((cooks s)(k := CookLoop (Suc j))) k')"
      using kr by force
    moreover have "\<exists>k'. cook_looping (((cooks s)(k := CookLoop (Suc j))) k')"
      by (rule exI [of _ k]) simp
    ultimately show ?thesis using C(5) unfolding s' inv_awake_def by simp
  qed
  moreover have "inv_main cfg s'"
  proof (rule inv_main_frame [OF I(6)])
    show "main_thread s' = main_thread s" by (simp add: s')
    show "\<forall>c. (customers s' c = CustNotStarted) = (customers s c = CustNotStarted)"
      using C(1) by (simp add: s')
    show "\<forall>c. customers s c = CustExited \<longrightarrow> customers s' c = CustExited"
      using C(2) by (simp add: s')
    show "\<forall>k'. (cooks s' k' = CookNotStarted) = (cooks s k' = CookNotStarted)"
      using k by (simp add: s')
    show "\<forall>k'. cook_exited (cooks s k') \<longrightarrow> cook_exited (cooks s' k')"
      using k by (simp add: s')
  qed
  ultimately show ?thesis by (simp add: sys_inv_def)
qed

lemma main_only_inv:
  assumes inv: "sys_inv cfg s" and m: "inv_main cfg (s\<lparr>main_thread := m\<rparr>)"
  shows "sys_inv cfg (s\<lparr>main_thread := m\<rparr>)"
  using sys_invD [OF inv] m by (simp add: sys_inv_def)

lemma close_succeeds:
  assumes inv: "sys_inv cfg s" and vc: "valid_config cfg" and m: "main_thread s = MainClose"
  shows "CloseRestaurant (bcb s) = Inr 0"
proof -
  note I = sys_invD [OF inv]
  from I(6) m have "cook_exited (cooks s 1)"
    using vc by (simp add: inv_main_def all_cooks_def valid_config_def)
  with I(4) have "orders (bcb s) = [] \<and> orders_handled (bcb s) = EXPECTED_NUM_ORDERS cfg"
    by (auto simp: inv_drained_def)
  with I(2) show ?thesis
    by (simp add: CloseRestaurant_def inv_queue_def restaurant_inv_def IsEmpty_def)
qed
lemma create_customer_main:
  assumes "inv_main cfg s" "main_thread s = MainCreateCustomers i" "i < NUM_CUSTOMERS cfg"
  shows "inv_main cfg (s\<lparr>customers := (customers s)(Suc i := CustLoop 0),
                           main_thread := MainCreateCustomers (Suc i)\<rparr>)"
proof -
  from assms(1,2) have st: "\<forall>c. (customers s c \<noteq> CustNotStarted) = (c \<in> {1..i})"
    and ck: "\<forall>k. cooks s k = CookNotStarted" by (simp_all add: inv_main_def)
  have "(((customers s)(Suc i := CustLoop 0)) c \<noteq> CustNotStarted) = (c \<in> {1..Suc i})" for c
  proof (cases "c = Suc i")
    case True then show ?thesis by simp
  next
    case False
    have "(customers s c \<noteq> CustNotStarted) = (c \<in> {1..i})" using st by blast
    with False show ?thesis by (simp add: le_Suc_eq)
  qed
  then have "\<forall>c. (((customers s)(Suc i := CustLoop 0)) c \<noteq> CustNotStarted) = (c \<in> {1..Suc i})"
    by blast
  with ck assms(3) show ?thesis unfolding inv_main_def by simp
qed
lemma create_cook_main:
  assumes "inv_main cfg s" "main_thread s = MainCreateCooks i" "i < NUM_COOKS cfg"
  shows "inv_main cfg (s\<lparr>cooks := (cooks s)(Suc i := CookLoop 0),
                           main_thread := MainCreateCooks (Suc i)\<rparr>)"
proof -
  from assms(1,2) have st: "\<forall>k. (cooks s k \<noteq> CookNotStarted) = (k \<in> {1..i})"
    and cs: "all_customers cfg s (\<lambda>p. p \<noteq> CustNotStarted) (NUM_CUSTOMERS cfg)"
    by (simp_all add: inv_main_def)
  have "(((cooks s)(Suc i := CookLoop 0)) k \<noteq> CookNotStarted) = (k \<in> {1..Suc i})" for k
  proof (cases "k = Suc i")
    case True then show ?thesis by simp
  next
    case False
    have "(cooks s k \<noteq> CookNotStarted) = (k \<in> {1..i})" using st by blast
    with False show ?thesis by (simp add: le_Suc_eq)
  qed
  then have "\<forall>k. (((cooks s)(Suc i := CookLoop 0)) k \<noteq> CookNotStarted) = (k \<in> {1..Suc i})"
    by blast
  with cs assms(3) show ?thesis unfolding inv_main_def all_customers_def by simp
qed

lemma create_customer_inv:
  assumes inv: "sys_inv cfg s" and m: "main_thread s = MainCreateCustomers i"
    and i: "i < NUM_CUSTOMERS cfg"
  shows "sys_inv cfg (s\<lparr>customers := (customers s)(Suc i := CustLoop 0),
                          main_thread := MainCreateCustomers (Suc i)\<rparr>)"
proof -
  note I = sys_invD [OF inv]
  from I(6) m have "\<forall>c. (customers s c \<noteq> CustNotStarted) = (c \<in> {1..i})"
    by (simp add: inv_main_def)
  then have "(customers s (Suc i) \<noteq> CustNotStarted) = (Suc i \<in> {1..i})" by blast
  then have old: "customers s (Suc i) = CustNotStarted" by simp
  let ?t = "s\<lparr>customers := (customers s)(Suc i := CustLoop 0)\<rparr>"
  have "inv_threads cfg ?t" using I(1) i unfolding inv_threads_def by auto
  moreover have "inv_queue cfg ?t"
    using I(2) old unfolding inv_queue_def by (simp add: customers_total_upd_same)
  moreover have "inv_logs ?t" "inv_drained cfg ?t" using I(3,4) by simp_all
  moreover have "inv_awake cfg ?t" using old by (intro inv_awake_customer_idle [OF I(5)]) simp_all
  moreover have "inv_main cfg (?t\<lparr>main_thread := MainCreateCustomers (Suc i)\<rparr>)"
    using create_customer_main [OF I(6) m i] by simp
  ultimately show ?thesis by (simp add: sys_inv_def)
qed

lemma create_cook_inv:
  assumes inv: "sys_inv cfg s" and m: "main_thread s = MainCreateCooks i"
    and i: "i < NUM_COOKS cfg"
  shows "sys_inv cfg (s\<lparr>cooks := (cooks s)(Suc i := CookLoop 0),
                          main_thread := MainCreateCooks (Suc i)\<rparr>)"
proof -
  note I = sys_invD [OF inv]
  from I(6) m have "\<forall>k. (cooks s k \<noteq> CookNotStarted) = (k \<in> {1..i})"
    by (simp add: inv_main_def)
  then have "(cooks s (Suc i) \<noteq> CookNotStarted) = (Suc i \<in> {1..i})" by blast
  then have old: "cooks s (Suc i) = CookNotStarted" by simp
  let ?t = "s\<lparr>cooks := (cooks s)(Suc i := CookLoop 0)\<rparr>"
  have "inv_threads cfg ?t"
  proof -
    have "((cooks s)(Suc i := CookLoop 0)) k \<noteq> CookNotStarted \<longrightarrow> k \<in> {1..NUM_COOKS cfg}"
      and "((cooks s)(Suc i := CookLoop 0)) k \<noteq> CookCrashed" for k
      using I(1) i by (cases "k = Suc i"; simp add: inv_threads_def)+
    with I(1) show ?thesis unfolding inv_threads_def by simp
  qed
  moreover have "inv_queue cfg ?t" "inv_logs ?t" using I(2,3) by simp_all
  moreover have "inv_drained cfg ?t"
  proof -
    have "cook_exited (((cooks s)(Suc i := CookLoop 0)) k) \<Longrightarrow> cook_exited (cooks s k)" for k
      by (cases "k = Suc i") simp_all
    with I(4) show ?thesis unfolding inv_drained_def by auto
  qed
  moreover have "inv_awake cfg ?t"
  proof -
    have "\<exists>k\<in>{1..NUM_COOKS cfg}. \<not> cook_waiting (((cooks s)(Suc i := CookLoop 0)) k)"
      if "orders (bcb s) \<noteq> []"
    proof -
      have "\<exists>k\<in>{1..NUM_COOKS cfg}. \<not> cook_waiting (cooks s k)"
        using I(5) that by (simp add: inv_awake_def)
      then obtain k where k: "k \<in> {1..NUM_COOKS cfg}" "\<not> cook_waiting (cooks s k)" by blast
      then have "\<not> cook_waiting (((cooks s)(Suc i := CookLoop 0)) k)" by simp
      with k(1) show ?thesis by blast
    qed
    moreover have "\<exists>k. cook_looping (((cooks s)(Suc i := CookLoop 0)) k)"
      by (rule exI [of _ "Suc i"]) simp
    ultimately show ?thesis using I(5) by (simp add: inv_awake_def)
  qed
  moreover have "inv_main cfg (?t\<lparr>main_thread := MainCreateCooks (Suc i)\<rparr>)"
    using create_cook_main [OF I(6) m i] by simp
  ultimately show ?thesis by (simp add: sys_inv_def)
qed


lemma main_step_inv:
  assumes inv: "sys_inv cfg s" and vc: "valid_config cfg" and st: "main_step cfg s s'"
  shows "sys_inv cfg s'"
  using st
proof (cases rule: main_step.cases)
  case (create_customer i)
  with create_customer_inv [OF inv create_customer(2,3)] show ?thesis by simp
next
  case (create_cook i)
  with create_cook_inv [OF inv create_cook(2,3)] show ?thesis by simp
next
  case (close_fail e)
  with close_succeeds [OF inv vc] show ?thesis by simp
next
  case (customers_created i)
  have "inv_main cfg s'"
    using sys_invD(6) [OF inv] customers_created
    by (simp add: inv_main_def all_customers_def all_cooks_def)
  then show ?thesis unfolding customers_created(1) by (rule main_only_inv [OF inv])
next
  case (cooks_created i)
  have "inv_main cfg s'"
    using sys_invD(6) [OF inv] cooks_created
    by (simp add: inv_main_def all_customers_def all_cooks_def)
  then show ?thesis unfolding cooks_created(1) by (rule main_only_inv [OF inv])
next
  case (join_customer i)
  have "inv_main cfg s'"
    using sys_invD(6) [OF inv] join_customer
    by (simp add: inv_main_def all_customers_def all_cooks_def ball_upto_Suc)
  then show ?thesis unfolding join_customer(1) by (rule main_only_inv [OF inv])
next
  case (customers_joined i)
  have "inv_main cfg s'"
    using sys_invD(6) [OF inv] customers_joined
    by (simp add: inv_main_def all_customers_def all_cooks_def)
  then show ?thesis unfolding customers_joined(1) by (rule main_only_inv [OF inv])
next
  case (join_cook i j)
  have "inv_main cfg s'"
    using sys_invD(6) [OF inv] join_cook
    by (simp add: inv_main_def all_customers_def all_cooks_def ball_upto_Suc)
  then show ?thesis unfolding join_cook(1) by (rule main_only_inv [OF inv])
next
  case (cooks_joined i)
  have "inv_main cfg s'"
    using sys_invD(6) [OF inv] cooks_joined
    by (simp add: inv_main_def all_customers_def all_cooks_def)
  then show ?thesis unfolding cooks_joined(1) by (rule main_only_inv [OF inv])
next
  case (close_ok freed)
  have "inv_main cfg s'"
    using sys_invD(6) [OF inv] close_ok by (simp add: inv_main_def all_customers_def all_cooks_def)
  then show ?thesis unfolding close_ok(1) by (rule main_only_inv [OF inv])
qed

lemma wake_cook_inv:
  assumes inv: "sys_inv cfg s" and k: "cooks s k = CookWaiting j"
    and s': "s' = s\<lparr>cooks := (cooks s)(k := CookLoop j)\<rparr>"
  shows "sys_inv cfg s'"
proof -
  note I = sys_invD [OF inv]
  from I(1) k have kr: "k \<in> {1..NUM_COOKS cfg}" by (auto simp: inv_threads_def dest: spec [of _ k])
  have "inv_threads cfg s'" using I(1) kr unfolding s' inv_threads_def by auto
  moreover have "inv_queue cfg s'" "inv_logs s'" using I(2,3) by (simp_all add: s')
  moreover have "inv_drained cfg s'"
  proof -
    have "cook_exited (((cooks s)(k := CookLoop j)) k') \<Longrightarrow> cook_exited (cooks s k')" for k'
      by (cases "k' = k") simp_all
    with I(4) show ?thesis unfolding s' inv_drained_def by auto
  qed
  moreover have "inv_awake cfg s'"
  proof -
    have "\<exists>k'\<in>{1..NUM_COOKS cfg}. \<not> cook_waiting (((cooks s)(k := CookLoop j)) k')"
      using kr by force
    moreover have "\<exists>k'. cook_looping (((cooks s)(k := CookLoop j)) k')"
      by (rule exI [of _ k]) simp
    ultimately show ?thesis using I(5) unfolding s' inv_awake_def by simp
  qed
  moreover have "inv_main cfg s'"
  proof (rule inv_main_frame [OF I(6)])
    show "main_thread s' = main_thread s"
      and "\<forall>c. (customers s' c = CustNotStarted) = (customers s c = CustNotStarted)"
      and "\<forall>c. customers s c = CustExited \<longrightarrow> customers s' c = CustExited"
      by (simp_all add: s')
    show "\<forall>k'. (cooks s' k' = CookNotStarted) = (cooks s k' = CookNotStarted)"
      and "\<forall>k'. cook_exited (cooks s k') \<longrightarrow> cook_exited (cooks s' k')"
      using k by (simp_all add: s')
  qed
  ultimately show ?thesis by (simp add: sys_inv_def)
qed

lemma wake_customer_inv:
  assumes inv: "sys_inv cfg s" and c: "customers s c = CustWaiting i ord"
    and s': "s' = s\<lparr>customers := (customers s)(c := CustAdding i ord)\<rparr>"
  shows "sys_inv cfg s'"
proof -
  note I = sys_invD [OF inv]
  from I(1) c have cr: "c \<in> {1..NUM_CUSTOMERS cfg}" and i: "i < ORDERS_PER_CUSTOMER cfg"
    by (auto simp: inv_threads_def dest: spec [of _ c])
  have "inv_threads cfg s'" using I(1) cr i unfolding s' inv_threads_def by auto
  moreover have "inv_queue cfg s'"
    using I(2) c unfolding s' inv_queue_def by (simp add: customers_total_upd_same)
  moreover have "inv_logs s'" "inv_drained cfg s'" using I(3,4) by (simp_all add: s')
  moreover have "inv_awake cfg s'"
    unfolding s' by (rule inv_awake_customers_adding [OF I(5), where c = c]) simp
  moreover have "inv_main cfg s'"
    using c by (rule_tac inv_main_frame [OF I(6)]) (auto simp: s')
  ultimately show ?thesis by (simp add: sys_inv_def)
qed

lemma sys_step_inv:
  assumes inv: "sys_inv cfg s" and vc: "valid_config cfg" and st: "sys_step cfg sp s s'"
  shows "sys_inv cfg s'"
  using st
proof (cases rule: sys_step.cases)
  case (customer c)
  then show ?thesis
  proof (cases rule: customer_step_cases)
    case (new_order i r nr)
    then show ?thesis by (intro new_order_inv [OF inv])
  next
    case (loop_done i)
    then show ?thesis by (intro loop_done_inv [OF inv])
  next
    case (add_wait i ord)
    then show ?thesis by (intro add_wait_inv [OF inv])
  next
    case (add_return i ord ks')
    then show ?thesis by (intro add_return_inv [OF inv vc])
  next
    case (print i ord)
    then show ?thesis by (intro print_inv [OF inv])
  qed
next
  case (cook k)
  have "restaurant_inv (bcb s)" using sys_invD(2) [OF inv] by (simp add: inv_queue_def)
  with cook show ?thesis
  proof (cases rule: cook_step_cases)
    case (get_wait j)
    then show ?thesis by (intro get_wait_inv [OF inv])
  next
    case (get_null j)
    then show ?thesis by (intro get_null_inv [OF inv])
  next
    case (get_order j ord tail cs')
    then show ?thesis by (intro get_order_inv [OF inv])
  qed
next
  case main
  then show ?thesis by (rule main_step_inv [OF inv vc])
next
  case (spurious_customer c i ord)
  then show ?thesis by (intro wake_customer_inv [OF inv])
next
  case (spurious_cook k j)
  then show ?thesis by (intro wake_cook_inv [OF inv])
qed

lemma reach_sys_inv:
  assumes "reach cfg sp s" and "valid_config cfg"
  shows "sys_inv cfg s"
  using assms
proof (induction rule: reach.induct)
  case (init cfg sp)
  then show ?case by (rule sys_init_inv)
next
  case (step cfg sp s s')
  then show ?case by (blast intro: sys_step_inv)
qed

end
