(* ===== verification/Progress.thy ===== *)
theory Progress
  imports Invariants
begin

text \<open>
  Progress of the system of \<open>Monitor\<close> without spurious wake-ups: every thread
  that is not blocked can take a step, and from every state satisfying the system
  invariant of \<open>Invariants\<close> some thread can step unless \<open>main\<close> has returned.
  The argument is the no-lost-wake-up part of the invariant: a waiting customer has
  a runnable cook or adding customer, and a cook waiting on a drained queue has a
  looping cook that will broadcast.
\<close>

section \<open>Every thread that is not blocked can step\<close>

lemma wakes_total: "\<exists>p'. wakes nt (cs, ks) p'"
proof (cases nt)
  case (Signal cv)
  show ?thesis
  proof (cases cv)
    case can_add_orders
    show ?thesis
    proof (cases "\<exists>c. cust_waiting (cs c)")
      case True
      then obtain c i ord where "cs c = CustWaiting i ord"
        by (metis cust_waiting.elims(2))
      with Signal can_add_orders show ?thesis by (blast intro: wakes.signal_customer)
    next
      case False
      with Signal can_add_orders show ?thesis by (blast intro: wakes.signal_no_customer)
    qed
  next
    case can_get_orders
    show ?thesis
    proof (cases "\<exists>k. cook_waiting (ks k)")
      case True
      then obtain k j where "ks k = CookWaiting j"
        by (metis cook_waiting.elims(2))
      with Signal can_get_orders show ?thesis by (blast intro: wakes.signal_cook)
    next
      case False
      with Signal can_get_orders show ?thesis by (blast intro: wakes.signal_no_cook)
    qed
  qed
next
  case (Broadcast cv)
  then show ?thesis by (cases cv) (blast intro: wakes.broadcast_customers wakes.broadcast_cooks)+
qed

lemma customer_can_step:
  assumes "customers s c = CustLoop i \<or> customers s c = CustAdding i ord"
  shows "\<exists>s'. customer_step cfg c s s'"
proof (cases "customers s c = CustLoop i")
  case True
  then show ?thesis
    by (cases "i < ORDERS_PER_CUSTOMER cfg")
       (blast intro: customer_step.cust_new_order [where r = 0 and nr = 0] customer_step.cust_loop_done)+
next
  case False
  with assms have a: "customers s c = CustAdding i ord" by simp
  show ?thesis
  proof (cases "AddOrder (bcb s) ord")
    case (Blocks cv)
    with a show ?thesis by (blast intro: customer_step.cust_add_wait)
  next
    case (Returns n r' nt)
    obtain p' where
      "wakes nt ((customers s)(c := CustPrinting (Suc i) (ord\<lparr>order_number := n\<rparr>)), cooks s) p'"
      using wakes_total by blast
    with a Returns show ?thesis
      by (cases p') (blast intro: customer_step.cust_add_return)
  next
    case NullDeref
    then show ?thesis by simp
  qed
qed

lemma cook_can_step:
  assumes k: "cooks s k = CookLoop j"
  shows "\<exists>s'. cook_step k s s'"
proof (cases "GetOrder (bcb s)")
  case (Blocks cv)
  with k show ?thesis by (blast intro: cook_step.cook_get_wait)
next
  case (Returns res r' nt)
  show ?thesis
  proof (cases res)
    case None
    obtain p' where "wakes nt (customers s, (cooks s)(k := CookExited j)) p'"
      using wakes_total by blast
    with k Returns None show ?thesis by (cases p') (blast intro: cook_step.cook_get_null)
  next
    case (Some ord)
    obtain p' where "wakes nt (customers s, (cooks s)(k := CookLoop (Suc j))) p'"
      using wakes_total by blast
    with k Returns Some show ?thesis by (cases p') (blast intro: cook_step.cook_get_order)
  qed
next
  case NullDeref
  with k show ?thesis by (blast intro: cook_step.cook_get_crash)
qed

lemma customers_all_exited_total:
  assumes "all_customers cfg s (\<lambda>p. p = CustExited) (NUM_CUSTOMERS cfg)"
  shows "customers_total cfg s = NUM_CUSTOMERS cfg * ORDERS_PER_CUSTOMER cfg"
  using assms by (simp add: customers_total_def all_customers_def)


section \<open>No lost wake-up\<close>

text \<open>
  Under the invariant, a non-empty queue always has a cook that can run once all
  cooks exist, and a blocked customer always has someone who can make progress.
\<close>

lemma looping_cook_if_nonempty:
  assumes inv: "sys_inv cfg s" and ne: "orders (bcb s) \<noteq> []"
    and started: "all_cooks cfg s (\<lambda>p. p \<noteq> CookNotStarted) (NUM_COOKS cfg)"
  shows "\<exists>k j. cooks s k = CookLoop j"
proof -
  note I = sys_invD [OF inv]
  from I(5) ne obtain k where k: "k \<in> {1..NUM_COOKS cfg}" "\<not> cook_waiting (cooks s k)"
    unfolding inv_awake_def by blast
  have "\<not> cook_exited (cooks s k)" using I(4) ne by (auto simp: inv_drained_def)
  moreover have "cooks s k \<noteq> CookCrashed" using I(1) by (simp add: inv_threads_def)
  moreover have "cooks s k \<noteq> CookNotStarted" using started k(1) by (simp add: all_cooks_def)
  ultimately show ?thesis using k(2) by (cases "cooks s k") auto
qed

lemma step_if_customer_waits:
  assumes inv: "sys_inv cfg s" and w: "customers s c = CustWaiting i ord"
    and started: "all_cooks cfg s (\<lambda>p. p \<noteq> CookNotStarted) (NUM_COOKS cfg)"
  shows "\<exists>s'. sys_step cfg sp s s'"
proof -
  note I = sys_invD [OF inv]
  from w have "cust_waiting (customers s c)" by simp
  with I(5) have "orders (bcb s) \<noteq> [] \<or> (\<exists>c. cust_adding (customers s c))"
    unfolding inv_awake_def by blast
  then show ?thesis
  proof
    assume "orders (bcb s) \<noteq> []"
    with looping_cook_if_nonempty [OF inv _ started] obtain k j where "cooks s k = CookLoop j"
      by blast
    then show ?thesis by (blast dest: cook_can_step intro: sys_step.cook)
  next
    assume "\<exists>c. cust_adding (customers s c)"
    then obtain c' i' ord' where "customers s c' = CustAdding i' ord'"
      by (metis cust_adding.elims(2))
    then show ?thesis using customer_can_step [where s = s and c = c' and i = i' and ord = ord' and cfg = cfg] by (blast intro: sys_step.customer)
  qed
qed

lemma step_if_cook_waits_drained:
  assumes inv: "sys_inv cfg s" and w: "cooks s k = CookWaiting j"
    and started: "all_cooks cfg s (\<lambda>p. p \<noteq> CookNotStarted) (NUM_COOKS cfg)"
    and exited: "all_customers cfg s (\<lambda>p. p = CustExited) (NUM_CUSTOMERS cfg)"
  shows "\<exists>s'. sys_step cfg sp s s'"
proof (cases "orders (bcb s) = []")
  case False
  with looping_cook_if_nonempty [OF inv _ started] obtain k' j' where "cooks s k' = CookLoop j'"
    by blast
  then show ?thesis by (blast dest: cook_can_step intro: sys_step.cook)
next
  case True
  note I = sys_invD [OF inv]
  from inv_queue_counts [OF I(2)] customers_all_exited_total [OF exited] True
  have "orders_handled (bcb s) = EXPECTED_NUM_ORDERS cfg" by (simp add: EXPECTED_NUM_ORDERS_def)
  moreover from w have "cook_waiting (cooks s k)" by simp
  ultimately obtain k' where "cook_looping (cooks s k')"
    using I(5) unfolding inv_awake_def by (metis order_refl)
  then obtain j' where "cooks s k' = CookLoop j'" by (metis cook_looping.elims(2))
  then show ?thesis by (blast dest: cook_can_step intro: sys_step.cook)
qed


lemma step_join_customers:
  assumes inv: "sys_inv cfg s" and m: "main_thread s = MainJoinCustomers i"
  shows "\<exists>s'. sys_step cfg sp s s'"
proof (cases "i < NUM_CUSTOMERS cfg")
  case False
  with m show ?thesis by (blast intro: sys_step.main main_step.customers_joined)
next
  case True
  note I = sys_invD [OF inv]
  from I(6) m have started: "all_cooks cfg s (\<lambda>p. p \<noteq> CookNotStarted) (NUM_COOKS cfg)"
    and created: "customers s (Suc i) \<noteq> CustNotStarted"
    using True by (simp_all add: inv_main_def all_customers_def)
  show ?thesis
  proof (cases "customers s (Suc i)")
    case (CustLoop j)
    then show ?thesis using customer_can_step [where s = s and c = "Suc i" and i = j and cfg = cfg]
      by (blast intro: sys_step.customer)
  next
    case (CustAdding j ord)
    then show ?thesis
      using customer_can_step [where s = s and c = "Suc i" and i = j and ord = ord and cfg = cfg]
      by (blast intro: sys_step.customer)
  next
    case (CustPrinting j ord)
    then show ?thesis by (blast intro: sys_step.customer customer_step.cust_print)
  next
    case (CustWaiting j ord)
    from step_if_customer_waits [OF inv this started] show ?thesis .
  next
    case CustExited
    with m True show ?thesis by (blast intro: sys_step.main main_step.join_customer)
  qed (use created in simp)
qed

lemma step_join_cooks:
  assumes inv: "sys_inv cfg s" and m: "main_thread s = MainJoinCooks i"
  shows "\<exists>s'. sys_step cfg sp s s'"
proof (cases "i < NUM_COOKS cfg")
  case False
  with m show ?thesis by (blast intro: sys_step.main main_step.cooks_joined)
next
  case True
  note I = sys_invD [OF inv]
  from I(6) m have started: "all_cooks cfg s (\<lambda>p. p \<noteq> CookNotStarted) (NUM_COOKS cfg)"
    and exited: "all_customers cfg s (\<lambda>p. p = CustExited) (NUM_CUSTOMERS cfg)"
    by (simp_all add: inv_main_def)
  from started True have created: "cooks s (Suc i) \<noteq> CookNotStarted"
    by (simp add: all_cooks_def)
  have alive: "cooks s (Suc i) \<noteq> CookCrashed" using I(1) by (simp add: inv_threads_def)
  show ?thesis
  proof (cases "cooks s (Suc i)")
    case (CookLoop j)
    then show ?thesis by (blast dest: cook_can_step intro: sys_step.cook)
  next
    case (CookWaiting j)
    from step_if_cook_waits_drained [OF inv this started exited] show ?thesis .
  next
    case (CookExited j)
    with m True show ?thesis by (blast intro: sys_step.main main_step.join_cook)
  qed (use created alive in simp_all)
qed

lemma step_unless_returned:
  assumes inv: "sys_inv cfg s" and vc: "valid_config cfg"
    and nr: "main_thread s \<noteq> MainReturned"
  shows "\<exists>s'. sys_step cfg sp s s'"
proof (cases "main_thread s")
  case (MainCreateCustomers i)
  then show ?thesis
    by (cases "i < NUM_CUSTOMERS cfg")
       (blast intro: sys_step.main main_step.create_customer main_step.customers_created)+
next
  case (MainCreateCooks i)
  then show ?thesis
    by (cases "i < NUM_COOKS cfg")
       (blast intro: sys_step.main main_step.create_cook main_step.cooks_created)+
next
  case (MainJoinCustomers i)
  from step_join_customers [OF inv this] show ?thesis .
next
  case (MainJoinCooks i)
  from step_join_cooks [OF inv this] show ?thesis .
next
  case MainClose
  with close_succeeds [OF inv vc MainClose] show ?thesis
    by (blast intro: sys_step.main main_step.close_ok)
next
  case (MainAborted e)
  with sys_invD(6) [OF inv] show ?thesis by (simp add: inv_main_def)
qed (use nr in simp)


lemma returned_drained:
  assumes inv: "sys_inv cfg s" and vc: "valid_config cfg" and m: "main_thread s = MainReturned"
  shows "cook_exited (cooks s 1) \<and> orders (bcb s) = [] \<and>
         orders_handled (bcb s) = EXPECTED_NUM_ORDERS cfg"
proof -
  note I = sys_invD [OF inv]
  from I(6) m have "all_cooks cfg s cook_exited (NUM_COOKS cfg)"
    by (simp add: inv_main_def)
  then have "cook_exited (cooks s 1)"
    using vc by (simp add: all_cooks_def valid_config_def)
  with I(4) show ?thesis unfolding inv_drained_def by blast
qed


section \<open>Prefixes of runs: the creation loops of \<open>main\<close>\<close>

lemma reach_step_eq:
  "reach cfg sp s \<Longrightarrow> sys_step cfg sp s s' \<Longrightarrow> s' = t \<Longrightarrow> reach cfg sp t"
  by (blast intro: reach.step)

lemma reach_create_customers:
  assumes "i \<le> NUM_CUSTOMERS cfg"
  shows "reach cfg sp (sys_init cfg\<lparr>customers := (\<lambda>c. if c \<in> {1..i} then CustLoop 0 else CustNotStarted),
                                   main_thread := MainCreateCustomers i\<rparr>)"
  using assms
proof (induction i)
  case 0
  have "sys_init cfg\<lparr>customers := (\<lambda>c. if c \<in> {1..0} then CustLoop 0 else CustNotStarted),
                     main_thread := MainCreateCustomers 0\<rparr> = sys_init cfg"
    by (simp add: sys_init_def)
  then show ?case by (simp add: reach.init)
next
  case (Suc i)
  let ?s = "sys_init cfg\<lparr>customers := (\<lambda>c. if c \<in> {1..i} then CustLoop 0 else CustNotStarted),
                          main_thread := MainCreateCustomers i\<rparr>"
  have r: "reach cfg sp ?s" using Suc by simp
  have "sys_step cfg sp ?s (?s\<lparr>customers := (customers ?s)(Suc i := CustLoop 0),
                               main_thread := MainCreateCustomers (Suc i)\<rparr>)"
    using Suc.prems by (intro sys_step.main main_step.create_customer) simp_all
  then show ?case by (rule reach_step_eq [OF r]) (auto simp: fun_eq_iff)
qed

lemma reach_create_cooks:
  assumes "k \<le> NUM_COOKS cfg"
  shows "reach cfg sp (sys_init cfg\<lparr>
           customers := (\<lambda>c. if c \<in> {1..NUM_CUSTOMERS cfg} then CustLoop 0 else CustNotStarted),
           cooks := (\<lambda>j. if j \<in> {1..k} then CookLoop 0 else CookNotStarted),
           main_thread := MainCreateCooks k\<rparr>)"
  using assms
proof (induction k)
  case 0
  let ?s = "sys_init cfg\<lparr>
              customers := (\<lambda>c. if c \<in> {1..NUM_CUSTOMERS cfg} then CustLoop 0 else CustNotStarted),
              main_thread := MainCreateCustomers (NUM_CUSTOMERS cfg)\<rparr>"
  have "sys_step cfg sp ?s (?s\<lparr>main_thread := MainCreateCooks 0\<rparr>)"
    by (intro sys_step.main main_step.customers_created [where i = "NUM_CUSTOMERS cfg"]) simp_all
  then show ?case
    by (rule reach_step_eq [OF reach_create_customers [OF order_refl]]) (simp add: sys_init_def)
next
  case (Suc k)
  let ?s = "sys_init cfg\<lparr>
              customers := (\<lambda>c. if c \<in> {1..NUM_CUSTOMERS cfg} then CustLoop 0 else CustNotStarted),
              cooks := (\<lambda>j. if j \<in> {1..k} then CookLoop 0 else CookNotStarted),
              main_thread := MainCreateCooks k\<rparr>"
  have r: "reach cfg sp ?s" using Suc by simp
  have "sys_step cfg sp ?s (?s\<lparr>cooks := (cooks ?s)(Suc k := CookLoop 0),
                               main_thread := MainCreateCooks (Suc k)\<rparr>)"
    using Suc.prems by (intro sys_step.main main_step.create_cook) simp_all
  then show ?case by (rule reach_step_eq [OF r]) (auto simp: fun_eq_iff)
qed

end
