(* ===== verification/Termination.thy ===== *)
theory Termination
  imports Progress
begin

text \<open>
  Every run without spurious wake-ups is finite.  The rank of a state is the tuple,
  compared lexicographically, of the orders still to be placed or served, the cooks
  that have not returned, a weight of the threads' program counters, and the phase
  and loop counter of \<open>main\<close>; every step from a reachable state decreases it.
\<close>

section \<open>The rank of a state\<close>

definition orders_left :: "config \<Rightarrow> sys \<Rightarrow> nat" where
  "orders_left cfg s =
     (NUM_CUSTOMERS cfg * ORDERS_PER_CUSTOMER cfg - customers_total cfg s) +
     nat (EXPECTED_NUM_ORDERS cfg - orders_handled (bcb s))"

definition cooks_alive :: "config \<Rightarrow> sys \<Rightarrow> nat" where
  "cooks_alive cfg s = (\<Sum>k\<in>{1..NUM_COOKS cfg}. if cook_exited (cooks s k) then 0 else 1)"

fun cust_weight :: "cust_pc \<Rightarrow> nat" where
  "cust_weight CustNotStarted = 4"
| "cust_weight (CustPrinting i ord) = 4"
| "cust_weight (CustLoop i) = 3"
| "cust_weight (CustAdding i ord) = 2"
| "cust_weight (CustWaiting i ord) = 1"
| "cust_weight CustExited = 0"

fun cook_weight :: "cook_pc \<Rightarrow> nat" where
  "cook_weight CookNotStarted = 3"
| "cook_weight (CookLoop j) = 2"
| "cook_weight (CookWaiting j) = 1"
| "cook_weight (CookExited j) = 0"
| "cook_weight CookCrashed = 0"

definition thread_weight :: "config \<Rightarrow> sys \<Rightarrow> nat" where
  "thread_weight cfg s =
     (\<Sum>c\<in>{1..NUM_CUSTOMERS cfg}. cust_weight (customers s c)) +
     (\<Sum>k\<in>{1..NUM_COOKS cfg}. cook_weight (cooks s k))"

fun main_phase :: "main_pc \<Rightarrow> nat" where
  "main_phase (MainCreateCustomers i) = 5"
| "main_phase (MainCreateCooks i) = 4"
| "main_phase (MainJoinCustomers i) = 3"
| "main_phase (MainJoinCooks i) = 2"
| "main_phase MainClose = 1"
| "main_phase MainReturned = 0"
| "main_phase (MainAborted e) = 0"

fun main_left :: "config \<Rightarrow> main_pc \<Rightarrow> nat" where
  "main_left cfg (MainCreateCustomers i) = NUM_CUSTOMERS cfg - i"
| "main_left cfg (MainCreateCooks i) = NUM_COOKS cfg - i"
| "main_left cfg (MainJoinCustomers i) = NUM_CUSTOMERS cfg - i"
| "main_left cfg (MainJoinCooks i) = NUM_COOKS cfg - i"
| "main_left cfg p = 0"

definition run_order :: "config \<Rightarrow> (sys \<times> sys) set" where
  "run_order cfg =
     measures [orders_left cfg, cooks_alive cfg, thread_weight cfg,
               \<lambda>s. main_phase (main_thread s), \<lambda>s. main_left cfg (main_thread s)]"

section \<open>Sums changed at one point\<close>

lemma sum_less_at:
  fixes f g :: "'a \<Rightarrow> nat"
  assumes "finite A" "x \<in> A" "g x < f x" "\<forall>y\<in>A. y \<noteq> x \<longrightarrow> g y = f y"
  shows "sum g A < sum f A"
proof -
  have "sum g A = g x + sum g (A - {x})" and "sum f A = f x + sum f (A - {x})"
    using assms(1,2) by (simp_all add: sum.remove)
  moreover have "sum g (A - {x}) = sum f (A - {x})"
    using assms(4) by (intro sum.cong) auto
  ultimately show ?thesis using assms(3) by simp
qed

lemma sum_upd_less:
  fixes w :: "'b \<Rightarrow> nat" and h :: "nat \<Rightarrow> 'b"
  assumes "x \<in> {1..n}" "w p < w (h x)"
  shows "(\<Sum>y\<in>{1..n}. w ((h(x := p)) y)) < (\<Sum>y\<in>{1..n}. w (h y))"
  using assms by (intro sum_less_at) auto


lemma cook_exited_wake_cooks [simp]: "cook_exited (wake_cooks ks k) = cook_exited (ks k)"
  by (cases "ks k") (simp_all add: wake_cooks_def)

section \<open>How each kind of step moves the rank\<close>

lemma rank_orders_left:
  "orders_left cfg s' < orders_left cfg s \<Longrightarrow> (s', s) \<in> run_order cfg"
  by (simp add: run_order_def)

lemma rank_customer_upd:
  assumes c: "c \<in> {1..NUM_CUSTOMERS cfg}"
    and fr: "customers s' = (customers s)(c := p)" "cooks s' = cooks s" "bcb s' = bcb s"
    and pl: "placed cfg p = placed cfg (customers s c)"
    and w: "cust_weight p < cust_weight (customers s c)"
  shows "(s', s) \<in> run_order cfg"
proof -
  have "customers_total cfg s' = customers_total cfg s"
    unfolding customers_total_def using fr(1) pl by (intro sum.cong) auto
  then have "orders_left cfg s' = orders_left cfg s" by (simp add: orders_left_def fr(3))
  moreover have "cooks_alive cfg s' = cooks_alive cfg s" by (simp add: cooks_alive_def fr(2))
  moreover have "thread_weight cfg s' < thread_weight cfg s"
    unfolding thread_weight_def fr(1,2) using sum_upd_less [OF c, of cust_weight p] w by simp
  ultimately show ?thesis by (simp add: run_order_def)
qed

lemma rank_cook_upd:
  assumes k: "k \<in> {1..NUM_COOKS cfg}"
    and fr: "cooks s' = (cooks s)(k := p)" "customers s' = customers s" "bcb s' = bcb s"
    and ex: "cook_exited p = cook_exited (cooks s k)"
    and w: "cook_weight p < cook_weight (cooks s k)"
  shows "(s', s) \<in> run_order cfg"
proof -
  have "orders_left cfg s' = orders_left cfg s"
    by (simp add: orders_left_def customers_total_def fr(2,3))
  moreover have "cooks_alive cfg s' = cooks_alive cfg s"
    unfolding cooks_alive_def using fr(1) ex by (intro sum.cong) auto
  moreover have "thread_weight cfg s' < thread_weight cfg s"
    unfolding thread_weight_def fr(1,2) using sum_upd_less [OF k, of cook_weight p] w by simp
  ultimately show ?thesis by (simp add: run_order_def)
qed

lemma rank_main_only:
  assumes fr: "customers s' = customers s" "cooks s' = cooks s" "bcb s' = bcb s"
    and m: "main_phase (main_thread s') < main_phase (main_thread s) \<or>
            main_phase (main_thread s') = main_phase (main_thread s) \<and>
            main_left cfg (main_thread s') < main_left cfg (main_thread s)"
  shows "(s', s) \<in> run_order cfg"
  using m by (simp add: run_order_def orders_left_def customers_total_def cooks_alive_def
                        thread_weight_def fr)


lemma customer_step_rank:
  assumes inv: "sys_inv cfg s" and st: "customer_step cfg c s s'"
  shows "(s', s) \<in> run_order cfg"
proof -
  note I = sys_invD [OF inv]
  have range: "customers s c \<noteq> CustNotStarted \<Longrightarrow> c \<in> {1..NUM_CUSTOMERS cfg}"
    using I(1) by (simp add: inv_threads_def)
  from st show ?thesis
  proof (cases rule: customer_step_cases)
    case (new_order i r nr)
    then show ?thesis using range
      by (intro rank_customer_upd [where c = c and p = "CustAdding i
            \<lparr>menu_item = PickRandomMenuItem r, customer_id = int c, order_number = nr\<rparr>"]) (simp_all add: new_order)
  next
    case (loop_done i)
    have "cust_ok cfg (customers s c)" using I(1) by (simp add: inv_threads_def)
    with loop_done(1,2) have "i = ORDERS_PER_CUSTOMER cfg" by simp
    with loop_done show ?thesis using range
      by (intro rank_customer_upd [where c = c and p = CustExited]) (simp_all add: loop_done)
  next
    case (add_wait i ord)
    then show ?thesis using range
      by (intro rank_customer_upd [where c = c and p = "CustWaiting i ord"]) (simp_all add: add_wait)
  next
    case (add_return i ord ks')
    have c: "c \<in> {1..NUM_CUSTOMERS cfg}" using range add_return(1) by simp
    have "customers_total cfg s' =
          customers_total cfg (s\<lparr>customers := (customers s)(c := CustPrinting (Suc i)
            (ord\<lparr>order_number := next_order_number (bcb s)\<rparr>))\<rparr>)"
      by (simp add: customers_total_def add_return(4))
    also have "\<dots> = Suc (customers_total cfg s)"
      using add_return(1) c by (intro customers_total_upd_Suc) simp_all
    finally have tot: "customers_total cfg s' = Suc (customers_total cfg s)" .
    have "customers_total cfg s < NUM_CUSTOMERS cfg * ORDERS_PER_CUSTOMER cfg"
      using customers_total_lt [OF I(1)] add_return(1) by blast
    with tot have "orders_left cfg s' < orders_left cfg s"
      by (simp add: orders_left_def add_return(4))
    then show ?thesis by (rule rank_orders_left)
  next
    case (print i ord)
    then show ?thesis using range
      by (intro rank_customer_upd [where c = c and p = "CustLoop i"]) (simp_all add: print)
  qed
qed

lemma get_order_handled_lt:
  assumes inv: "sys_inv cfg s" and ne: "orders (bcb s) = ord # tail"
  shows "orders_handled (bcb s) < EXPECTED_NUM_ORDERS cfg"
proof -
  note I = sys_invD [OF inv]
  have "orders_handled (bcb s) + int (length (orders (bcb s))) = int (customers_total cfg s)"
    by (rule inv_queue_counts [OF I(2)])
  moreover have "int (customers_total cfg s) \<le> EXPECTED_NUM_ORDERS cfg"
    using customers_total_le [OF I(1)] unfolding EXPECTED_NUM_ORDERS_def
    by (simp only: of_nat_le_iff)
  ultimately show ?thesis using ne by simp
qed

lemma cook_step_rank:
  assumes inv: "sys_inv cfg s" and st: "cook_step k s s'"
  shows "(s', s) \<in> run_order cfg"
proof -
  note I = sys_invD [OF inv]
  have ri: "restaurant_inv (bcb s)" using I(2) by (simp add: inv_queue_def)
  have range: "cooks s k \<noteq> CookNotStarted \<Longrightarrow> k \<in> {1..NUM_COOKS cfg}"
    using I(1) by (simp add: inv_threads_def)
  from st ri show ?thesis
  proof (cases rule: cook_step_cases)
    case (get_wait j)
    then show ?thesis using range by (intro rank_cook_upd [where k = k and p = "CookWaiting j"]) (simp_all add: get_wait)
  next
    case (get_null j)
    have k: "k \<in> {1..NUM_COOKS cfg}" using range get_null(1) by simp
    have "cooks_alive cfg s' < cooks_alive cfg s"
      unfolding cooks_alive_def get_null(4)
      using sum_upd_less [OF k, of "\<lambda>p. if cook_exited p then 0 else 1" "CookExited j" "cooks s"]
            get_null(1) by simp
    moreover have "orders_left cfg s' = orders_left cfg s"
      by (simp add: orders_left_def customers_total_def get_null(4))
    ultimately show ?thesis by (simp add: run_order_def)
  next
    case (get_order j ord tail cs')
    have "customers_total cfg s' = customers_total cfg s"
      using get_order(3) unfolding customers_total_def get_order(4)
      by (elim disjE exE conjE) (simp_all, intro sum.cong, auto)
    moreover have "orders_handled (bcb s) < EXPECTED_NUM_ORDERS cfg"
      by (rule get_order_handled_lt [OF inv get_order(2)])
    ultimately have "orders_left cfg s' < orders_left cfg s"
      by (simp add: orders_left_def get_order(4))
    then show ?thesis by (rule rank_orders_left)
  qed
qed


lemma main_step_rank:
  assumes inv: "sys_inv cfg s" and st: "main_step cfg s s'"
  shows "(s', s) \<in> run_order cfg"
  using st
proof (cases rule: main_step.cases)
  case (create_customer i)
  from sys_invD(6) [OF inv] create_customer(2) have "customers s (Suc i) = CustNotStarted"
    by (simp add: inv_main_def) (metis Suc_n_not_le_n)
  with create_customer show ?thesis
    by (intro rank_customer_upd [where c = "Suc i" and p = "CustLoop 0"]) simp_all
next
  case (create_cook i)
  from sys_invD(6) [OF inv] create_cook(2) have "cooks s (Suc i) = CookNotStarted"
    by (simp add: inv_main_def) (metis Suc_n_not_le_n)
  with create_cook show ?thesis
    by (intro rank_cook_upd [where k = "Suc i" and p = "CookLoop 0"]) simp_all
qed (simp_all add: rank_main_only diff_less_mono2)

lemma sys_step_rank:
  assumes inv: "sys_inv cfg s" and st: "sys_step cfg False s s'"
  shows "(s', s) \<in> run_order cfg"
  using st
proof (cases rule: sys_step.cases)
  case (customer c)
  then show ?thesis by (rule customer_step_rank [OF inv])
next
  case (cook k)
  then show ?thesis by (rule cook_step_rank [OF inv])
next
  case main
  then show ?thesis by (rule main_step_rank [OF inv])
qed simp_all


section \<open>Every reachable state can run to completion\<close>

lemma wf_run_order: "wf (run_order cfg)"
  by (simp add: run_order_def)

lemma reach_steps:
  assumes "(sys_step cfg sp)\<^sup>*\<^sup>* s s'" and "reach cfg sp s"
  shows "reach cfg sp s'"
  using assms by induction (auto intro: reach.step)

lemma steps_to_return:
  assumes "reach cfg False s" and vc: "valid_config cfg"
  shows "\<exists>s'. (sys_step cfg False)\<^sup>*\<^sup>* s s' \<and> main_thread s' = MainReturned"
  using assms(1)
proof (induction s rule: wf_induct_rule [OF wf_run_order [of cfg]])
  case (1 s)
  show ?case
  proof (cases "main_thread s = MainReturned")
    case True
    then show ?thesis by blast
  next
    case False
    note inv = reach_sys_inv [OF "1.prems" vc]
    obtain s' where st: "sys_step cfg False s s'"
      using step_unless_returned [OF inv vc False] by blast
    have "reach cfg False s'" by (rule reach.step [OF "1.prems" st])
    with "1.IH" [OF sys_step_rank [OF inv st]] obtain s'' where
      "(sys_step cfg False)\<^sup>*\<^sup>* s' s''" "main_thread s'' = MainReturned" by blast
    with st show ?thesis by (blast intro: converse_rtranclp_into_rtranclp)
  qed
qed

end
