(* ===== verification/Customers.thy ===== *)
theory Customers
  imports Termination
begin

text \<open>
  Per-customer accounting of the orders of \<^verbatim>\<open>main.c\<close>: every order carries the id
  of the customer thread that placed it, so the number of orders in a log with a
  given \<open>customer_id\<close> is the number that customer placed.  A second invariant of
  the reachable states, beside \<open>sys_inv\<close>, ties this count in \<open>placed_log\<close> to each
  customer's program counter; when \<open>main\<close> returns, every customer has had all
  \<open>ORDERS_PER_CUSTOMER\<close> of its orders served.
\<close>

definition customer_orders :: "nat \<Rightarrow> order list \<Rightarrow> nat" where
  "customer_orders c os = length (filter (\<lambda>x. customer_id x = int c) os)"

fun pending_order :: "cust_pc \<Rightarrow> order option" where
  "pending_order (CustAdding i ord) = Some ord"
| "pending_order (CustWaiting i ord) = Some ord"
| "pending_order p = None"

definition inv_percust :: "config \<Rightarrow> sys \<Rightarrow> bool" where
  "inv_percust cfg s \<longleftrightarrow>
     (\<forall>c. customer_orders c (placed_log s) = placed cfg (customers s c)) \<and>
     (\<forall>c ord. pending_order (customers s c) = Some ord \<longrightarrow> customer_id ord = int c)"

section \<open>Preservation\<close>

lemma customer_orders_snoc [simp]:
  "customer_orders c (os @ [ord]) =
     customer_orders c os + (if customer_id ord = int c then 1 else 0)"
  by (simp add: customer_orders_def)

text \<open>A change of one customer's program counter that keeps its count and its pending order.\<close>

lemma inv_percust_upd:
  assumes "inv_percust cfg s" and "placed cfg p = placed cfg (customers s c)"
    and "\<forall>ord. pending_order p = Some ord \<longrightarrow> customer_id ord = int c"
    and "customers s' = (customers s)(c := p)" and "placed_log s' = placed_log s"
  shows "inv_percust cfg s'"
  using assms unfolding inv_percust_def by auto

lemma inv_percust_pending:
  "inv_percust cfg s \<Longrightarrow> pending_order (customers s c) = Some ord \<Longrightarrow> customer_id ord = int c"
  by (simp add: inv_percust_def)

lemma inv_percust_customers_same:
  assumes "inv_percust cfg s" and "customers s' = customers s" and "placed_log s' = placed_log s"
  shows "inv_percust cfg s'"
  using assms unfolding inv_percust_def by simp


lemma inv_percust_customer_step:
  assumes inv: "sys_inv cfg s" and pc: "inv_percust cfg s" and st: "customer_step cfg c s s'"
  shows "inv_percust cfg s'"
  using st
proof (cases rule: customer_step_cases)
  case (new_order i r nr)
  show ?thesis
    by (rule inv_percust_upd [OF pc, where c = c and p = "CustAdding i
          \<lparr>menu_item = PickRandomMenuItem r, customer_id = int c, order_number = nr\<rparr>"])
       (simp_all add: new_order)
next
  case (loop_done i)
  have "cust_ok cfg (customers s c)" using sys_invD(1) [OF inv] by (simp add: inv_threads_def)
  with loop_done(1,2) have "i = ORDERS_PER_CUSTOMER cfg" by simp
  then show ?thesis
    by (rule_tac inv_percust_upd [OF pc, where c = c and p = CustExited]) (simp_all add: loop_done)
next
  case (add_wait i ord)
  moreover have "customer_id ord = int c"
    using inv_percust_pending [OF pc, of c] add_wait(1) by simp
  then show ?thesis
    by (rule_tac inv_percust_upd [OF pc, where c = c and p = "CustWaiting i ord"]) (simp_all add: add_wait)
next
  case (add_return i ord ks')
  have cid: "customer_id ord = int c"
    using inv_percust_pending [OF pc, of c] add_return(1) by simp
  have cnt: "customer_orders c' (placed_log s) = placed cfg (customers s c')" for c'
    using pc by (simp add: inv_percust_def)
  show ?thesis
    unfolding inv_percust_def add_return(4)
  proof (intro conjI allI impI)
    fix c'
    show "customer_orders c' (placed_log (s\<lparr>bcb := (bcb s)\<lparr>next_order_number := next_order_number (bcb s) + 1,
                 orders := orders (bcb s) @ [ord\<lparr>order_number := next_order_number (bcb s)\<rparr>],
                 current_size := current_size (bcb s) + 1\<rparr>,
              customers := (customers s)(c := CustPrinting (Suc i)
                 (ord\<lparr>order_number := next_order_number (bcb s)\<rparr>)), cooks := ks',
              placed_log := placed_log s @ [ord\<lparr>order_number := next_order_number (bcb s)\<rparr>]\<rparr>)) =
          placed cfg (customers (s\<lparr>bcb := (bcb s)\<lparr>next_order_number := next_order_number (bcb s) + 1,
                 orders := orders (bcb s) @ [ord\<lparr>order_number := next_order_number (bcb s)\<rparr>],
                 current_size := current_size (bcb s) + 1\<rparr>,
              customers := (customers s)(c := CustPrinting (Suc i)
                 (ord\<lparr>order_number := next_order_number (bcb s)\<rparr>)), cooks := ks',
              placed_log := placed_log s @ [ord\<lparr>order_number := next_order_number (bcb s)\<rparr>]\<rparr>) c')"
      using cnt [of c'] cnt [of c] add_return(1) cid by (cases "c' = c") simp_all
  next
    fix c' o'
    assume "pending_order (customers (s\<lparr>bcb := (bcb s)\<lparr>next_order_number := next_order_number (bcb s) + 1,
                 orders := orders (bcb s) @ [ord\<lparr>order_number := next_order_number (bcb s)\<rparr>],
                 current_size := current_size (bcb s) + 1\<rparr>,
              customers := (customers s)(c := CustPrinting (Suc i)
                 (ord\<lparr>order_number := next_order_number (bcb s)\<rparr>)), cooks := ks',
              placed_log := placed_log s @ [ord\<lparr>order_number := next_order_number (bcb s)\<rparr>]\<rparr>) c') = Some o'"
    then show "customer_id o' = int c'"
      using inv_percust_pending [OF pc, of c'] by (cases "c' = c") simp_all
  qed
next
  case (print i ord)
  show ?thesis
    by (rule inv_percust_upd [OF pc, where c = c and p = "CustLoop i"]) (simp_all add: print)
qed

lemma inv_percust_wake_customer:
  assumes pc: "inv_percust cfg s" and w: "customers s c = CustWaiting i ord"
    and cs: "customers s' = (customers s)(c := CustAdding i ord)" and l: "placed_log s' = placed_log s"
  shows "inv_percust cfg s'"
proof -
  have "customer_id ord = int c"
    using pc w unfolding inv_percust_def by (metis pending_order.simps(2))
  then show ?thesis
    by (rule_tac inv_percust_upd [OF pc, where c = c and p = "CustAdding i ord"]) (simp_all add: w cs l)
qed

lemma inv_percust_cook_step:
  assumes inv: "sys_inv cfg s" and pc: "inv_percust cfg s" and st: "cook_step k s s'"
  shows "inv_percust cfg s'"
proof -
  have "restaurant_inv (bcb s)" using sys_invD(2) [OF inv] by (simp add: inv_queue_def)
  with st show ?thesis
  proof (cases rule: cook_step_cases)
    case (get_wait j)
    show ?thesis by (rule inv_percust_customers_same [OF pc]) (simp_all add: get_wait)
  next
    case (get_null j)
    show ?thesis by (rule inv_percust_customers_same [OF pc]) (simp_all add: get_null)
  next
    case (get_order j ord tail cs')
    from get_order(3) show ?thesis
    proof
      assume "cs' = customers s \<and> (\<forall>c. \<not> cust_waiting (customers s c))"
      then show ?thesis by (rule_tac inv_percust_customers_same [OF pc]) (simp_all add: get_order(4))
    next
      assume "\<exists>c i ord. customers s c = CustWaiting i ord \<and> cs' = (customers s)(c := CustAdding i ord)"
      then obtain c i ord' where w: "customers s c = CustWaiting i ord'"
          and cs: "cs' = (customers s)(c := CustAdding i ord')" by blast
      show ?thesis by (rule inv_percust_wake_customer [OF pc w]) (simp_all add: get_order(4) cs)
    qed
  qed
qed

lemma inv_percust_main_step:
  assumes inv: "sys_inv cfg s" and pc: "inv_percust cfg s" and st: "main_step cfg s s'"
  shows "inv_percust cfg s'"
  using st
proof (cases rule: main_step.cases)
  case (create_customer i)
  from sys_invD(6) [OF inv] create_customer(2) have "customers s (Suc i) = CustNotStarted"
    by (simp add: inv_main_def) (metis Suc_n_not_le_n)
  then show ?thesis
    by (rule_tac inv_percust_upd [OF pc, where c = "Suc i" and p = "CustLoop 0"])
       (simp_all add: create_customer)
next
  case (customers_created i)
  show ?thesis by (rule inv_percust_customers_same [OF pc]) (simp_all add: customers_created)
next
  case (create_cook i)
  show ?thesis by (rule inv_percust_customers_same [OF pc]) (simp_all add: create_cook)
next
  case (cooks_created i)
  show ?thesis by (rule inv_percust_customers_same [OF pc]) (simp_all add: cooks_created)
next
  case (join_customer i)
  show ?thesis by (rule inv_percust_customers_same [OF pc]) (simp_all add: join_customer)
next
  case (customers_joined i)
  show ?thesis by (rule inv_percust_customers_same [OF pc]) (simp_all add: customers_joined)
next
  case (join_cook i j)
  show ?thesis by (rule inv_percust_customers_same [OF pc]) (simp_all add: join_cook)
next
  case (cooks_joined i)
  show ?thesis by (rule inv_percust_customers_same [OF pc]) (simp_all add: cooks_joined)
next
  case (close_ok freed)
  show ?thesis by (rule inv_percust_customers_same [OF pc]) (simp_all add: close_ok)
next
  case (close_fail e)
  show ?thesis by (rule inv_percust_customers_same [OF pc]) (simp_all add: close_fail)
qed

lemma inv_percust_sys_step:
  assumes inv: "sys_inv cfg s" and pc: "inv_percust cfg s" and st: "sys_step cfg sp s s'"
  shows "inv_percust cfg s'"
  using st
proof (cases rule: sys_step.cases)
  case (customer c)
  then show ?thesis by (rule inv_percust_customer_step [OF inv pc])
next
  case (cook k)
  then show ?thesis by (rule inv_percust_cook_step [OF inv pc])
next
  case main
  then show ?thesis by (rule inv_percust_main_step [OF inv pc])
next
  case (spurious_customer c i ord)
  show ?thesis
    by (rule inv_percust_wake_customer [OF pc spurious_customer(3)]) (simp_all add: spurious_customer(1))
next
  case (spurious_cook k j)
  show ?thesis by (rule inv_percust_customers_same [OF pc]) (simp_all add: spurious_cook(1))
qed

lemma reach_inv_percust:
  assumes "reach cfg sp s" and "valid_config cfg"
  shows "inv_percust cfg s"
  using assms
proof (induction rule: reach.induct)
  case (init cfg sp)
  show ?case by (simp add: inv_percust_def sys_init_def customer_orders_def)
next
  case (step cfg sp s s')
  then show ?case by (blast intro: inv_percust_sys_step reach_sys_inv)
qed


section \<open>Every customer is served\<close>

text \<open>
  C25 (functional).  When \<open>main\<close> has returned, each customer thread
  \<open>1 .. NUM_CUSTOMERS\<close> has had exactly \<open>ORDERS_PER_CUSTOMER\<close> orders served under
  its own \<open>customer_id\<close>, and no served order carries any other id.
\<close>

theorem each_customer_served:
  assumes r: "reach cfg sp s" and vc: "valid_config cfg" and m: "main_thread s = MainReturned"
  shows "customer_orders c (served_log s) =
           (if c \<in> {1..NUM_CUSTOMERS cfg} then ORDERS_PER_CUSTOMER cfg else 0)"
proof -
  note inv = reach_sys_inv [OF r vc]
  note I = sys_invD [OF inv]
  have "orders (bcb s) = []" using returned_drained [OF inv vc m] by simp
  with I(3) have served: "served_log s = placed_log s" by (simp add: inv_logs_def)
  have cnt: "customer_orders c (placed_log s) = placed cfg (customers s c)"
    using reach_inv_percust [OF r vc] by (simp add: inv_percust_def)
  show ?thesis
  proof (cases "c \<in> {1..NUM_CUSTOMERS cfg}")
    case True
    with I(6) m have "customers s c = CustExited" by (simp add: inv_main_def all_customers_def)
    with served cnt True show ?thesis by simp
  next
    case False
    with I(1) have "customers s c = CustNotStarted" by (auto simp: inv_threads_def)
    with served cnt False show ?thesis by (simp only: if_False placed.simps)
  qed
qed

theorem each_customer_served_witness:
  "\<exists>s. reach main_config False s \<and> main_thread s = MainReturned \<and>
       customer_orders 1 (served_log s) = 3 \<and> customer_orders 91 (served_log s) = 0"
proof -
  have vc: "valid_config main_config" by (simp add: valid_config_def main_config_def)
  obtain s where "(sys_step main_config False)\<^sup>*\<^sup>* (sys_init main_config) s"
      and m: "main_thread s = MainReturned"
    using steps_to_return [OF reach.init vc] by blast
  then have r: "reach main_config False s" using reach_steps reach.init by blast
  have "customer_orders 1 (served_log s) = 3" "customer_orders 91 (served_log s) = 0"
    using each_customer_served [OF r vc m, of 1] each_customer_served [OF r vc m, of 91]
    by (simp_all add: main_config_def)
  with r m show ?thesis by blast
qed

end
