(* ===== verification/Bank.thy ===== *)
theory Bank
  imports Prelude
begin

text \<open>
  The second program of the repository, \<^verbatim>\<open>src/shm_processes.c\<close>: a parent process
  ("Dear Old Dad") and a child process ("Poor Student") share one \<^verbatim>\<open>int\<close>, the bank
  account, in System V shared memory, and serialise their read-modify-write of it
  with a System V semaphore used as a binary lock.  Each process keeps a local copy
  of the balance.  A process step is one statement group between two accesses of
  shared state; the value \<^verbatim>\<open>rand()\<close> returns at that point is the parameter \<open>r\<close>
  (a value in \<open>[0, RAND_MAX]\<close>), and \<^verbatim>\<open>sleep\<close> and \<^verbatim>\<open>printf\<close> have no effect on
  the state.  Two ghost counters record the money deposited and withdrawn.
\<close>

section \<open>The semaphore\<close>

text \<open>
  \<open>sem_wait_op\<close>: \<^verbatim>\<open>semop\<close> with \<^verbatim>\<open>sem_op = -1\<close> decrements the value when that
  leaves it non-negative and otherwise blocks the caller (\<open>None\<close>);
  \<open>sem_signal_op\<close>: \<^verbatim>\<open>semop\<close> with \<^verbatim>\<open>sem_op = 1\<close> increments it.
\<close>

definition sem_wait_op :: "int \<Rightarrow> int option" where
  "sem_wait_op v = (if 1 \<le> v then Some (v - 1) else None)"

definition sem_signal_op :: "int \<Rightarrow> int" where
  "sem_signal_op v = v + 1"

section \<open>Set-up in \<open>main\<close>\<close>

text \<open>
  The results of the system calls of \<open>main\<close>, which the model takes as inputs, and
  the failure each one leads to (\<^verbatim>\<open>perror\<close> and \<^verbatim>\<open>exit(1)\<close>).
\<close>

record os_results =
  shmget_result :: int
  shmat_result :: int
  semget_result :: int
  semctl_result :: int
  fork_result :: int

datatype setup_error = ShmgetFailed | ShmatFailed | SemgetFailed | SemctlFailed | ForkFailed

text \<open>The control points of the loops of \<open>ParentProcess\<close> and \<open>ChildProcess\<close>.\<close>

datatype dad_pc =
    DadLoop
  | DadAcquire
  | DadRead
  | DadPick
  | DadWrite int
  | DadRelease

datatype student_pc =
    StudentLoop
  | StudentAcquire
  | StudentRead
  | StudentPick
  | StudentWrite int
  | StudentRelease

record bank =
  BankAccount :: int
  semval :: int
  dad :: dad_pc
  dad_balance :: int
  student :: student_pc
  student_balance :: int
  deposited :: int
  withdrawn :: int

text \<open>
  After a successful set-up: the account is 0, the semaphore is 1 (unlocked), and
  both processes, with local balance 0, are at the head of their loop.
\<close>

definition bank_init :: bank where
  "bank_init =
     \<lparr>BankAccount = 0, semval = 1, dad = DadLoop, dad_balance = 0,
      student = StudentLoop, student_balance = 0, deposited = 0, withdrawn = 0\<rparr>"

definition bank_main :: "os_results \<Rightarrow> setup_error + bank" where
  "bank_main os =
     (if shmget_result os < 0 then Inl ShmgetFailed
      else if shmat_result os = -1 then Inl ShmatFailed
      else if semget_result os < 0 then Inl SemgetFailed
      else if semctl_result os < 0 then Inl SemctlFailed
      else if fork_result os < 0 then Inl ForkFailed
      else Inr bank_init)"

section \<open>The two processes\<close>

text \<open>
  \<open>ParentProcess\<close>: on an even \<^verbatim>\<open>rand()\<close> and a local balance below 100 it takes
  the semaphore, copies the account, draws \<open>amount = rand() % 101\<close> and, when the
  amount is even, adds it and writes the sum back, then releases the semaphore.
  The test \<open>localBalance < 100\<close> reads the local copy, not the account.
\<close>

definition dad_step :: "int \<Rightarrow> bank \<Rightarrow> bank option" where
  "dad_step r s =
     (case dad s of
        DadLoop \<Rightarrow>
          Some (if r mod 2 = 0 \<and> dad_balance s < 100 then s\<lparr>dad := DadAcquire\<rparr> else s)
      | DadAcquire \<Rightarrow>
          (case sem_wait_op (semval s) of
             None \<Rightarrow> None
           | Some v \<Rightarrow> Some (s\<lparr>semval := v, dad := DadRead\<rparr>))
      | DadRead \<Rightarrow> Some (s\<lparr>dad_balance := BankAccount s, dad := DadPick\<rparr>)
      | DadPick \<Rightarrow>
          (let amount = r mod 101 in
           if amount mod 2 = 0
           then Some (s\<lparr>dad_balance := dad_balance s + amount, dad := DadWrite amount\<rparr>)
           else Some (s\<lparr>dad := DadRelease\<rparr>))
      | DadWrite amount \<Rightarrow>
          Some (s\<lparr>BankAccount := dad_balance s, deposited := deposited s + amount,
                  dad := DadRelease\<rparr>)
      | DadRelease \<Rightarrow> Some (s\<lparr>semval := sem_signal_op (semval s), dad := DadLoop\<rparr>))"

text \<open>
  \<open>ChildProcess\<close>: on an even \<^verbatim>\<open>rand()\<close> it takes the semaphore, copies the
  account, draws \<open>need = rand() % 51\<close> and, when the copy covers it, subtracts it
  and writes the difference back, then releases the semaphore.
\<close>

definition student_step :: "int \<Rightarrow> bank \<Rightarrow> bank option" where
  "student_step r s =
     (case student s of
        StudentLoop \<Rightarrow> Some (if r mod 2 = 0 then s\<lparr>student := StudentAcquire\<rparr> else s)
      | StudentAcquire \<Rightarrow>
          (case sem_wait_op (semval s) of
             None \<Rightarrow> None
           | Some v \<Rightarrow> Some (s\<lparr>semval := v, student := StudentRead\<rparr>))
      | StudentRead \<Rightarrow> Some (s\<lparr>student_balance := BankAccount s, student := StudentPick\<rparr>)
      | StudentPick \<Rightarrow>
          (let need = r mod 51 in
           if need \<le> student_balance s
           then Some (s\<lparr>student_balance := student_balance s - need, student := StudentWrite need\<rparr>)
           else Some (s\<lparr>student := StudentRelease\<rparr>))
      | StudentWrite need \<Rightarrow>
          Some (s\<lparr>BankAccount := student_balance s, withdrawn := withdrawn s + need,
                  student := StudentRelease\<rparr>)
      | StudentRelease \<Rightarrow>
          Some (s\<lparr>semval := sem_signal_op (semval s), student := StudentLoop\<rparr>))"

text \<open>After \<^verbatim>\<open>fork\<close> the two processes run interleaved; either may move next.\<close>

inductive bank_step :: "bank \<Rightarrow> bank \<Rightarrow> bool" where
  parent: "0 \<le> r \<Longrightarrow> dad_step r s = Some s' \<Longrightarrow> bank_step s s'"
| child: "0 \<le> r \<Longrightarrow> student_step r s = Some s' \<Longrightarrow> bank_step s s'"

text \<open>A schedule: which process moves and the value its \<^verbatim>\<open>rand()\<close> returns.\<close>

datatype proc = Parent | Child

fun bank_run :: "(proc \<times> int) list \<Rightarrow> bank \<Rightarrow> bank option" where
  "bank_run [] s = Some s"
| "bank_run ((Parent, r) # sched) s =
     (if 0 \<le> r then (case dad_step r s of None \<Rightarrow> None | Some s' \<Rightarrow> bank_run sched s') else None)"
| "bank_run ((Child, r) # sched) s =
     (if 0 \<le> r then (case student_step r s of None \<Rightarrow> None | Some s' \<Rightarrow> bank_run sched s') else None)"

section \<open>The invariant\<close>

fun dad_holds :: "dad_pc \<Rightarrow> bool" where
  "dad_holds DadLoop = False"
| "dad_holds DadAcquire = False"
| "dad_holds p = True"

fun student_holds :: "student_pc \<Rightarrow> bool" where
  "student_holds StudentLoop = False"
| "student_holds StudentAcquire = False"
| "student_holds p = True"

text \<open>
  The semaphore counts the free lock: it is 1 when neither process is between its
  \<^verbatim>\<open>sem_wait_op\<close> and its \<^verbatim>\<open>sem_signal_op\<close>, and 0 when one is.  The account is
  what was deposited minus what was withdrawn, and each process's local copy is
  tied to it at each control point of its critical section.
\<close>

definition bank_inv :: "bank \<Rightarrow> bool" where
  "bank_inv s \<longleftrightarrow>
     semval s + of_bool (dad_holds (dad s)) + of_bool (student_holds (student s)) = 1 \<and>
     0 \<le> semval s \<and>
     deposited s - withdrawn s = BankAccount s \<and>
     0 \<le> BankAccount s \<and> BankAccount s \<le> dad_balance s \<and>
     dad_balance s \<le> 199 \<and> 0 \<le> student_balance s \<and> student_balance s \<le> 199 \<and>
     (dad s = DadAcquire \<or> dad s = DadRead \<longrightarrow> dad_balance s < 100) \<and>
     (dad s = DadPick \<longrightarrow> dad_balance s = BankAccount s \<and> BankAccount s < 100) \<and>
     (\<forall>a. dad s = DadWrite a \<longrightarrow>
        0 \<le> a \<and> a \<le> 100 \<and> BankAccount s < 100 \<and> dad_balance s = BankAccount s + a) \<and>
     (student s = StudentPick \<longrightarrow> student_balance s = BankAccount s) \<and>
     (\<forall>n. student s = StudentWrite n \<longrightarrow>
        0 \<le> n \<and> student_balance s = BankAccount s - n \<and> n \<le> BankAccount s)"


inductive bank_reach :: "bank \<Rightarrow> bool" where
  init: "bank_reach bank_init"
| step: "bank_reach s \<Longrightarrow> bank_step s s' \<Longrightarrow> bank_reach s'"

text \<open>
  A process that holds the semaphore can always run to the head of its loop and
  release it: \<open>student_done s s'\<close> and \<open>dad_done s s'\<close> say that \<open>s'\<close> is such a
  state, reached from \<open>s\<close> by steps of that process only.
\<close>

definition student_done :: "bank \<Rightarrow> bank \<Rightarrow> bool" where
  "student_done s s' \<longleftrightarrow> bank_step\<^sup>*\<^sup>* s s' \<and> student s' = StudentLoop \<and> dad s' = dad s \<and>
     semval s' = semval s + 1"

definition dad_done :: "bank \<Rightarrow> bank \<Rightarrow> bool" where
  "dad_done s s' \<longleftrightarrow> bank_step\<^sup>*\<^sup>* s s' \<and> dad s' = DadLoop \<and> student s' = student s \<and>
     semval s' = semval s + 1"

section \<open>The semaphore operations\<close>

lemma sem_wait_op_Some [simp]: "sem_wait_op v = Some v' \<longleftrightarrow> 1 \<le> v \<and> v' = v - 1"
  by (auto simp: sem_wait_op_def)

lemma sem_wait_op_unlocked [simp]: "1 \<le> v \<Longrightarrow> sem_wait_op v = Some (v - 1)"
  by (simp add: sem_wait_op_def)

lemma sem_wait_op_None [simp]: "sem_wait_op v = None \<longleftrightarrow> v < 1"
  by (simp add: sem_wait_op_def)

section \<open>Each step keeps the invariant\<close>

text \<open>One lemma per control point of each process, then the two step functions.\<close>

lemma dad_loop_inv:
  assumes "bank_inv s" "dad s = DadLoop" "dad_balance s < 100"
  shows "bank_inv (s\<lparr>dad := DadAcquire\<rparr>)"
  using assms by (simp add: bank_inv_def)

lemma dad_acquire_inv:
  assumes "bank_inv s" "dad s = DadAcquire" "1 \<le> semval s"
  shows "bank_inv (s\<lparr>semval := semval s - 1, dad := DadRead\<rparr>)"
  using assms by (cases "student s") (simp_all add: bank_inv_def)

lemma dad_read_inv:
  assumes "bank_inv s" "dad s = DadRead"
  shows "bank_inv (s\<lparr>dad_balance := BankAccount s, dad := DadPick\<rparr>)"
  using assms by (simp add: bank_inv_def)


lemma dad_pick_inv:
  assumes "bank_inv s" "dad s = DadPick" "0 \<le> a" "a \<le> 100"
  shows "bank_inv (s\<lparr>dad_balance := dad_balance s + a, dad := DadWrite a\<rparr>)"
  using assms by (simp add: bank_inv_def)

lemma dad_pick_skip_inv:
  assumes "bank_inv s" "dad s = DadPick"
  shows "bank_inv (s\<lparr>dad := DadRelease\<rparr>)"
  using assms by (simp add: bank_inv_def)

lemma dad_write_inv:
  assumes "bank_inv s" "dad s = DadWrite a"
  shows "bank_inv (s\<lparr>BankAccount := dad_balance s, deposited := deposited s + a, dad := DadRelease\<rparr>)"
  using assms by (cases "student s") (simp_all add: bank_inv_def)

lemma dad_release_inv:
  assumes "bank_inv s" "dad s = DadRelease"
  shows "bank_inv (s\<lparr>semval := semval s + 1, dad := DadLoop\<rparr>)"
  using assms by (simp add: bank_inv_def)

lemma student_loop_inv:
  assumes "bank_inv s" "student s = StudentLoop"
  shows "bank_inv (s\<lparr>student := StudentAcquire\<rparr>)"
  using assms by (simp add: bank_inv_def)

lemma student_acquire_inv:
  assumes "bank_inv s" "student s = StudentAcquire" "1 \<le> semval s"
  shows "bank_inv (s\<lparr>semval := semval s - 1, student := StudentRead\<rparr>)"
  using assms by (cases "dad s") (simp_all add: bank_inv_def)

lemma student_read_inv:
  assumes "bank_inv s" "student s = StudentRead"
  shows "bank_inv (s\<lparr>student_balance := BankAccount s, student := StudentPick\<rparr>)"
  using assms by (simp add: bank_inv_def)

lemma student_pick_inv:
  assumes "bank_inv s" "student s = StudentPick" "0 \<le> n" "n \<le> student_balance s"
  shows "bank_inv (s\<lparr>student_balance := student_balance s - n, student := StudentWrite n\<rparr>)"
  using assms by (simp add: bank_inv_def)

lemma student_pick_skip_inv:
  assumes "bank_inv s" "student s = StudentPick"
  shows "bank_inv (s\<lparr>student := StudentRelease\<rparr>)"
  using assms by (simp add: bank_inv_def)

lemma student_write_inv:
  assumes "bank_inv s" "student s = StudentWrite n"
  shows "bank_inv (s\<lparr>BankAccount := student_balance s, withdrawn := withdrawn s + n,
                     student := StudentRelease\<rparr>)"
  using assms by (cases "dad s") (simp_all add: bank_inv_def)

lemma student_release_inv:
  assumes "bank_inv s" "student s = StudentRelease"
  shows "bank_inv (s\<lparr>semval := semval s + 1, student := StudentLoop\<rparr>)"
  using assms by (simp add: bank_inv_def)


lemma dad_step_inv:
  assumes st: "dad_step r s = Some s'" and r: "0 \<le> r" and inv: "bank_inv s"
  shows "bank_inv s'"
proof (cases "dad s")
  case DadLoop
  with st inv show ?thesis by (auto simp: dad_step_def intro: dad_loop_inv split: if_splits)
next
  case DadAcquire
  with st inv show ?thesis
    by (auto simp: dad_step_def intro: dad_acquire_inv split: option.splits)
next
  case DadRead
  with st inv show ?thesis by (auto simp: dad_step_def intro: dad_read_inv)
next
  case DadPick
  have "0 \<le> r mod 101" "r mod 101 \<le> 100" using r by simp_all
  with st inv DadPick show ?thesis
    by (auto simp: dad_step_def Let_def intro: dad_pick_inv dad_pick_skip_inv split: if_splits)
next
  case (DadWrite a)
  with st inv show ?thesis by (auto simp: dad_step_def intro: dad_write_inv)
next
  case DadRelease
  with st inv show ?thesis
    by (auto simp: dad_step_def sem_signal_op_def intro: dad_release_inv)
qed

lemma student_step_inv:
  assumes st: "student_step r s = Some s'" and r: "0 \<le> r" and inv: "bank_inv s"
  shows "bank_inv s'"
proof (cases "student s")
  case StudentLoop
  with st inv show ?thesis
    by (auto simp: student_step_def intro: student_loop_inv split: if_splits)
next
  case StudentAcquire
  with st inv show ?thesis
    by (auto simp: student_step_def intro: student_acquire_inv split: option.splits)
next
  case StudentRead
  with st inv show ?thesis by (auto simp: student_step_def intro: student_read_inv)
next
  case StudentPick
  have "0 \<le> r mod 51" using r by simp
  with st inv StudentPick show ?thesis
    by (auto simp: student_step_def Let_def intro: student_pick_inv student_pick_skip_inv split: if_splits)
next
  case (StudentWrite n)
  with st inv show ?thesis by (auto simp: student_step_def intro: student_write_inv)
next
  case StudentRelease
  with st inv show ?thesis
    by (auto simp: student_step_def sem_signal_op_def intro: student_release_inv)
qed

lemma bank_step_inv: "bank_step s s' \<Longrightarrow> bank_inv s \<Longrightarrow> bank_inv s'"
  by (induction rule: bank_step.induct) (blast intro: dad_step_inv student_step_inv)+

lemma bank_init_inv: "bank_inv bank_init"
  by (simp add: bank_inv_def bank_init_def)

lemma bank_reach_inv: "bank_reach s \<Longrightarrow> bank_inv s"
  by (induction rule: bank_reach.induct) (auto intro: bank_init_inv bank_step_inv)


section \<open>Schedules and frames\<close>

lemma bank_run_steps:
  "bank_run sched s = Some s' \<Longrightarrow> bank_step\<^sup>*\<^sup>* s s'"
proof (induction sched s rule: bank_run.induct)
  case (2 r sched s)
  then show ?case
    by (auto split: if_splits option.splits intro: converse_rtranclp_into_rtranclp bank_step.parent)
next
  case (3 r sched s)
  then show ?case
    by (auto split: if_splits option.splits intro: converse_rtranclp_into_rtranclp bank_step.child)
qed simp

lemma bank_reach_steps: "bank_step\<^sup>*\<^sup>* s s' \<Longrightarrow> bank_reach s \<Longrightarrow> bank_reach s'"
  by (induction rule: rtranclp_induct) (auto intro: bank_reach.step)

lemma student_step_frame:
  "student_step r s = Some s' \<Longrightarrow>
   dad s' = dad s \<and> dad_balance s' = dad_balance s \<and> deposited s' = deposited s"
  by (auto simp: student_step_def Let_def split: student_pc.splits option.splits if_splits)

lemma dad_frozen_step:
  assumes "bank_step s s'" and "dad s = DadLoop" and "100 \<le> dad_balance s"
  shows "dad s' = DadLoop \<and> dad_balance s' = dad_balance s \<and> deposited s' = deposited s"
  using assms
proof (cases rule: bank_step.cases)
  case (parent r)
  with assms(2,3) show ?thesis by (auto simp: dad_step_def)
next
  case (child r)
  then show ?thesis using assms(2) by (auto dest: student_step_frame)
qed


section \<open>A holder of the semaphore can always release it\<close>

lemma student_done_release:
  assumes "student s = StudentRelease"
  shows "\<exists>s'. student_done s s'"
proof -
  have "bank_step s (s\<lparr>semval := semval s + 1, student := StudentLoop\<rparr>)"
    by (rule bank_step.child [of 0]) (simp_all add: assms student_step_def sem_signal_op_def)
  then show ?thesis by (auto simp: student_done_def)
qed

lemma student_done_prepend:
  assumes "bank_step s t" and "student_done t u" and "dad t = dad s" and "semval t = semval s"
  shows "student_done s u"
  using assms by (auto simp: student_done_def intro: converse_rtranclp_into_rtranclp)

lemma student_done_write:
  assumes "student s = StudentWrite n"
  shows "\<exists>s'. student_done s s'"
proof -
  let ?t = "s\<lparr>BankAccount := student_balance s, withdrawn := withdrawn s + n, student := StudentRelease\<rparr>"
  have "bank_step s ?t"
    by (rule bank_step.child [of 0]) (simp_all add: assms student_step_def)
  moreover obtain u where "student_done ?t u" using student_done_release [of ?t] by auto
  ultimately have "student_done s u" by (rule student_done_prepend) simp_all
  then show ?thesis ..
qed

lemma student_done_pick:
  assumes "student s = StudentPick" and "0 \<le> student_balance s"
  shows "\<exists>s'. student_done s s'"
proof -
  let ?t = "s\<lparr>student_balance := student_balance s - 0, student := StudentWrite 0\<rparr>"
  have "bank_step s ?t"
    by (rule bank_step.child [of 0]) (simp_all add: assms student_step_def)
  moreover obtain u where "student_done ?t u" using student_done_write [of ?t 0] by auto
  ultimately have "student_done s u" by (rule student_done_prepend) simp_all
  then show ?thesis ..
qed

lemma student_done_read:
  assumes "student s = StudentRead" and "0 \<le> BankAccount s"
  shows "\<exists>s'. student_done s s'"
proof -
  let ?t = "s\<lparr>student_balance := BankAccount s, student := StudentPick\<rparr>"
  have "bank_step s ?t"
    by (rule bank_step.child [of 0]) (simp_all add: assms student_step_def)
  moreover obtain u where "student_done ?t u" using student_done_pick [of ?t] assms(2) by auto
  ultimately have "student_done s u" by (rule student_done_prepend) simp_all
  then show ?thesis ..
qed

lemma student_finishes:
  assumes inv: "bank_inv s" and h: "student_holds (student s)"
  shows "\<exists>s'. student_done s s'"
proof -
  have "0 \<le> student_balance s" "0 \<le> BankAccount s" using inv by (simp_all add: bank_inv_def)
  then show ?thesis using h
    by (cases "student s")
       (auto intro: student_done_release student_done_write student_done_pick student_done_read)
qed


lemma dad_done_release:
  assumes "dad s = DadRelease"
  shows "\<exists>s'. dad_done s s'"
proof -
  have "bank_step s (s\<lparr>semval := semval s + 1, dad := DadLoop\<rparr>)"
    by (rule bank_step.parent [of 0]) (simp_all add: assms dad_step_def sem_signal_op_def)
  then show ?thesis by (auto simp: dad_done_def)
qed

lemma dad_done_prepend:
  assumes "bank_step s t" and "dad_done t u" and "student t = student s" and "semval t = semval s"
  shows "dad_done s u"
  using assms by (auto simp: dad_done_def intro: converse_rtranclp_into_rtranclp)

lemma dad_done_write:
  assumes "dad s = DadWrite a"
  shows "\<exists>s'. dad_done s s'"
proof -
  let ?t = "s\<lparr>BankAccount := dad_balance s, deposited := deposited s + a, dad := DadRelease\<rparr>"
  have "bank_step s ?t"
    by (rule bank_step.parent [of 0]) (simp_all add: assms dad_step_def)
  moreover obtain u where "dad_done ?t u" using dad_done_release [of ?t] by auto
  ultimately have "dad_done s u" by (rule dad_done_prepend) simp_all
  then show ?thesis ..
qed

lemma dad_done_pick:
  assumes "dad s = DadPick"
  shows "\<exists>s'. dad_done s s'"
proof -
  let ?t = "s\<lparr>dad := DadRelease\<rparr>"
  have "bank_step s ?t"
    by (rule bank_step.parent [of 1]) (simp_all add: assms dad_step_def)
  moreover obtain u where "dad_done ?t u" using dad_done_release [of ?t] by auto
  ultimately have "dad_done s u" by (rule dad_done_prepend) simp_all
  then show ?thesis ..
qed

lemma dad_done_read:
  assumes "dad s = DadRead"
  shows "\<exists>s'. dad_done s s'"
proof -
  let ?t = "s\<lparr>dad_balance := BankAccount s, dad := DadPick\<rparr>"
  have "bank_step s ?t"
    by (rule bank_step.parent [of 0]) (simp_all add: assms dad_step_def)
  moreover obtain u where "dad_done ?t u" using dad_done_pick [of ?t] by auto
  ultimately have "dad_done s u" by (rule dad_done_prepend) simp_all
  then show ?thesis ..
qed

lemma dad_finishes:
  assumes h: "dad_holds (dad s)"
  shows "\<exists>s'. dad_done s s'"
  using h by (cases "dad s") (auto intro: dad_done_release dad_done_write dad_done_pick dad_done_read)

section \<open>Neither process waits forever on the semaphore\<close>

lemma holder_when_locked:
  assumes "bank_inv s" and "\<not> 1 \<le> semval s"
  shows "semval s = 0 \<and> of_bool (dad_holds (dad s)) + of_bool (student_holds (student s)) = (1::int)"
  using assms by (simp add: bank_inv_def)

lemma dad_enters:
  assumes inv: "bank_inv s" and a: "dad s = DadAcquire"
  shows "\<exists>s'. bank_step\<^sup>*\<^sup>* s s' \<and> dad s' = DadRead"
proof (cases "1 \<le> semval s")
  case True
  then have "bank_step s (s\<lparr>semval := semval s - 1, dad := DadRead\<rparr>)"
    by (intro bank_step.parent [of 0]) (simp_all add: a dad_step_def)
  then show ?thesis by (intro exI [of _ "s\<lparr>semval := semval s - 1, dad := DadRead\<rparr>"]) auto
next
  case False
  from holder_when_locked [OF inv False] a have z: "semval s = 0" and "student_holds (student s)"
    by simp_all
  then obtain u where u: "student_done s u" using student_finishes [OF inv] by blast
  then have "dad u = DadAcquire" "semval u = 1" using a z by (simp_all add: student_done_def)
  then have "bank_step u (u\<lparr>semval := 0, dad := DadRead\<rparr>)"
    by (intro bank_step.parent [of 0]) (simp_all add: dad_step_def)
  with u have "bank_step\<^sup>*\<^sup>* s (u\<lparr>semval := 0, dad := DadRead\<rparr>)"
    unfolding student_done_def by (blast intro: rtranclp.rtrancl_into_rtrancl)
  then show ?thesis by (intro exI [of _ "u\<lparr>semval := 0, dad := DadRead\<rparr>"]) simp
qed

lemma student_enters:
  assumes inv: "bank_inv s" and a: "student s = StudentAcquire"
  shows "\<exists>s'. bank_step\<^sup>*\<^sup>* s s' \<and> student s' = StudentRead"
proof (cases "1 \<le> semval s")
  case True
  then have "bank_step s (s\<lparr>semval := semval s - 1, student := StudentRead\<rparr>)"
    by (intro bank_step.child [of 0]) (simp_all add: a student_step_def)
  then show ?thesis
    by (intro exI [of _ "s\<lparr>semval := semval s - 1, student := StudentRead\<rparr>"]) auto
next
  case False
  from holder_when_locked [OF inv False] a have z: "semval s = 0" and "dad_holds (dad s)"
    by simp_all
  then obtain u where u: "dad_done s u" using dad_finishes by blast
  then have "student u = StudentAcquire" "semval u = 1" using a z by (simp_all add: dad_done_def)
  then have "bank_step u (u\<lparr>semval := 0, student := StudentRead\<rparr>)"
    by (intro bank_step.child [of 0]) (simp_all add: student_step_def)
  with u have "bank_step\<^sup>*\<^sup>* s (u\<lparr>semval := 0, student := StudentRead\<rparr>)"
    unfolding dad_done_def by (blast intro: rtranclp.rtrancl_into_rtrancl)
  then show ?thesis by (intro exI [of _ "u\<lparr>semval := 0, student := StudentRead\<rparr>"]) simp
qed


section \<open>Runs from the initial state\<close>

lemma bank_run_reach: "bank_run sched bank_init = Some s \<Longrightarrow> bank_reach s"
  by (blast intro: bank_reach_steps bank_run_steps bank_reach.init)

lemma dad_frozen_steps:
  assumes "bank_step\<^sup>*\<^sup>* s s'" and "dad s = DadLoop" and "100 \<le> dad_balance s"
  shows "dad s' = DadLoop \<and> dad_balance s' = dad_balance s \<and> deposited s' = deposited s"
  using assms(1)
proof (induction rule: rtranclp_induct)
  case (step t u)
  with dad_frozen_step [of t u] assms(3) show ?case by simp
qed (use assms(2) in simp)

section \<open>Properties of the bank processes\<close>

text \<open>
  C17 (safety).  Mutual exclusion: in every reachable state at most one process is
  between its \<open>sem_wait_op\<close> and its \<open>sem_signal_op\<close>, so the two read-modify-write
  sequences on the account never overlap.
\<close>

theorem bank_mutual_exclusion:
  assumes "bank_reach s"
  shows "\<not> (dad_holds (dad s) \<and> student_holds (student s))"
  using bank_reach_inv [OF assms] by (auto simp: bank_inv_def)

theorem bank_mutual_exclusion_witness:
  "\<exists>s. bank_reach s \<and> dad_holds (dad s) \<and> \<not> (dad_holds (dad s) \<and> student_holds (student s))"
proof -
  obtain s where r: "bank_run [(Parent, 0), (Parent, 0)] bank_init = Some s" and "dad s = DadRead"
    by (simp add: bank_init_def dad_step_def)
  with bank_mutual_exclusion [OF bank_run_reach [OF r]] bank_run_reach [OF r] show ?thesis by auto
qed

text \<open>
  C18 (invariant).  No update is lost: in every reachable state the account holds
  exactly the money deposited minus the money withdrawn, and it is never negative.
\<close>

theorem bank_conservation:
  assumes "bank_reach s"
  shows "BankAccount s = deposited s - withdrawn s \<and> 0 \<le> BankAccount s"
  using bank_reach_inv [OF assms] by (simp add: bank_inv_def)

theorem bank_conservation_witness:
  "\<exists>s. bank_reach s \<and> deposited s = 50 \<and> withdrawn s = 1 \<and> BankAccount s = 49"
proof -
  obtain s where r: "bank_run
      ([(Parent, 0), (Parent, 0), (Parent, 0), (Parent, 50), (Parent, 0), (Parent, 0)] @
       [(Child, 0), (Child, 0), (Child, 0), (Child, 1), (Child, 0), (Child, 0)]) bank_init = Some s"
      and d: "deposited s = 50" "withdrawn s = 1"
    by (simp add: bank_init_def dad_step_def student_step_def sem_signal_op_def)
  with bank_conservation [OF bank_run_reach [OF r]] bank_run_reach [OF r] show ?thesis by auto
qed

text \<open>
  C19 (bounds).  The account and both local copies stay within \<open>0 .. 199\<close>, so no
  \<^verbatim>\<open>int\<close> addition of the two processes can overflow; the bound is reached.
\<close>

theorem bank_no_overflow:
  assumes "bank_reach s"
  shows "0 \<le> BankAccount s \<and> BankAccount s \<le> 199 \<and> 0 \<le> dad_balance s \<and> dad_balance s \<le> 199 \<and>
         0 \<le> student_balance s \<and> student_balance s \<le> 199"
  using bank_reach_inv [OF assms] by (auto simp: bank_inv_def)

theorem bank_no_overflow_witness:
  "\<exists>s. bank_reach s \<and> BankAccount s = 199 \<and> dad_balance s \<le> 199"
proof -
  obtain s where r: "bank_run
      ([(Parent, 0), (Parent, 0), (Parent, 0), (Parent, 50), (Parent, 0), (Parent, 0)] @
       [(Child, 0), (Child, 0), (Child, 0), (Child, 1), (Child, 0), (Child, 0)] @
       [(Parent, 0), (Parent, 0), (Parent, 0), (Parent, 50), (Parent, 0), (Parent, 0)] @
       [(Parent, 0), (Parent, 0), (Parent, 0), (Parent, 100), (Parent, 0), (Parent, 0)])
      bank_init = Some s" and b: "BankAccount s = 199"
    by (simp add: bank_init_def dad_step_def student_step_def sem_signal_op_def)
  with bank_no_overflow [OF bank_run_reach [OF r]] bank_run_reach [OF r] show ?thesis by auto
qed

text \<open>
  C20 (type).  The System V semaphore is used as a binary semaphore: its value is
  always 0 or 1, and it is 1 exactly when no process holds it.
\<close>

theorem semaphore_binary:
  assumes "bank_reach s"
  shows "(semval s = 0 \<or> semval s = 1) \<and>
         (semval s = 1 \<longleftrightarrow> \<not> dad_holds (dad s) \<and> \<not> student_holds (student s))"
proof -
  have "semval s + of_bool (dad_holds (dad s)) + of_bool (student_holds (student s)) = 1"
    and "0 \<le> semval s"
    using bank_reach_inv [OF assms] by (simp_all add: bank_inv_def)
  then show ?thesis
    by (cases "dad_holds (dad s)"; cases "student_holds (student s)") auto
qed

theorem semaphore_binary_witness: "semval bank_init = 1"
  using semaphore_binary [OF bank_reach.init] by (simp add: bank_init_def)

text \<open>
  C21 (liveness).  The parent never waits forever in \<open>sem_wait_op\<close>: from every
  reachable state where it is blocked on the semaphore, some continuation lets it
  take the semaphore and copy the account.
\<close>

theorem dad_not_starved:
  assumes "bank_reach s" and "dad s = DadAcquire"
  shows "\<exists>s'. bank_step\<^sup>*\<^sup>* s s' \<and> dad s' = DadRead"
  by (rule dad_enters [OF bank_reach_inv [OF assms(1)] assms(2)])

theorem dad_not_starved_witness:
  "\<exists>s. bank_reach s \<and> dad s = DadAcquire \<and> semval s = 0 \<and>
       (\<exists>s'. bank_step\<^sup>*\<^sup>* s s' \<and> dad s' = DadRead)"
proof -
  obtain s where r: "bank_run [(Child, 0), (Child, 0), (Parent, 0)] bank_init = Some s"
      and a: "dad s = DadAcquire" "semval s = 0"
    by (simp add: bank_init_def dad_step_def student_step_def)
  with dad_not_starved [OF bank_run_reach [OF r]] bank_run_reach [OF r] show ?thesis by auto
qed

text \<open>
  C22 (liveness).  Symmetrically, the child never waits forever in \<open>sem_wait_op\<close>.
\<close>

theorem student_not_starved:
  assumes "bank_reach s" and "student s = StudentAcquire"
  shows "\<exists>s'. bank_step\<^sup>*\<^sup>* s s' \<and> student s' = StudentRead"
  by (rule student_enters [OF bank_reach_inv [OF assms(1)] assms(2)])

theorem student_not_starved_witness:
  "\<exists>s. bank_reach s \<and> student s = StudentAcquire \<and> semval s = 0 \<and>
       (\<exists>s'. bank_step\<^sup>*\<^sup>* s s' \<and> student s' = StudentRead)"
proof -
  obtain s where r: "bank_run [(Parent, 0), (Parent, 0), (Child, 0)] bank_init = Some s"
      and a: "student s = StudentAcquire" "semval s = 0"
    by (simp add: bank_init_def dad_step_def student_step_def)
  with student_not_starved [OF bank_run_reach [OF r]] bank_run_reach [OF r] show ?thesis by auto
qed

text \<open>
  C23 (functional).  The parent decides on its stale local copy: once that copy is
  100 or more at the head of its loop, the parent never takes the semaphore again
  and never deposits again, whatever the account holds.  The witness reaches such a
  state with an empty account, from which no run deposits anything more.
\<close>

theorem dad_stops_depositing:
  assumes "bank_step\<^sup>*\<^sup>* s s'" and "dad s = DadLoop" and "100 \<le> dad_balance s"
  shows "deposited s' = deposited s \<and> dad s' = DadLoop"
  using dad_frozen_steps [OF assms] by simp

theorem dad_stops_depositing_witness:
  "\<exists>s. bank_reach s \<and> BankAccount s = 0 \<and> dad s = DadLoop \<and> dad_balance s = 100 \<and>
       deposited ` {s'. bank_step\<^sup>*\<^sup>* s s'} = {100}"
proof -
  obtain s where r: "bank_run
      ([(Parent, 0), (Parent, 0), (Parent, 0), (Parent, 100), (Parent, 0), (Parent, 0)] @
       [(Child, 0), (Child, 0), (Child, 0), (Child, 50), (Child, 0), (Child, 0)] @
       [(Child, 0), (Child, 0), (Child, 0), (Child, 50), (Child, 0), (Child, 0)]) bank_init = Some s"
      and st: "BankAccount s = 0" "dad s = DadLoop" "dad_balance s = 100" "deposited s = 100"
    by (simp add: bank_init_def dad_step_def student_step_def sem_signal_op_def)
  have "deposited ` {s'. bank_step\<^sup>*\<^sup>* s s'} = {100}"
  proof
    show "deposited ` {s'. bank_step\<^sup>*\<^sup>* s s'} \<subseteq> {100}"
      using dad_stops_depositing [of s] st by auto
    show "{100} \<subseteq> deposited ` {s'. bank_step\<^sup>*\<^sup>* s s'}"
      using st(4) by (auto intro: image_eqI [of _ _ s])
  qed
  with st bank_run_reach [OF r] show ?thesis by blast
qed

end
