(* ===== verification/Spec2Isabelle.thy ===== *)
theory Spec2Isabelle
  imports Customers Bank
begin

text \<open>
  \<^bold>\<open>A verification development of Project-2-Thread-Synchronization.\<close>

  The repository holds two C programs.  \<^verbatim>\<open>src/BENSCHILLIBOWL.c\<close> and
  \<^verbatim>\<open>src/main.c\<close> are a restaurant: a bounded FIFO of orders protected by a
  pthread mutex with two condition variables, customer threads that add orders
  (\<open>AddOrder\<close>), cook threads that take them (\<open>GetOrder\<close>) until they receive
  \<^verbatim>\<open>NULL\<close>, and a \<open>main\<close> that opens the restaurant, creates and joins the threads
  and closes it with two assertions.  \<^verbatim>\<open>src/shm_processes.c\<close> is a separate
  program: a parent and a child process that deposit into and withdraw from one
  \<^verbatim>\<open>int\<close> in shared memory under a System V semaphore.

  \<^bold>\<open>Theories.\<close>
  \<^item> \<open>Prelude\<close>: the collections \<open>restaurant_ops\<close> and \<open>sys_invs\<close>, and generic
    lemmas on integer intervals and on sums over functions changed at one point.
  \<^item> \<open>QueueSpec\<close>: the abstract bounded queue of \<^verbatim>\<open>spec.md\<close> (\<open>bq_enqueue\<close>,
    \<open>bq_dequeue\<close>, \<open>bq_close_ok\<close>); \<open>None\<close> is "the caller blocks".
  \<^item> \<open>Restaurant\<close>: one definition per function of \<^verbatim>\<open>BENSCHILLIBOWL.c\<close>.  The
    structs are records (\<open>order\<close>, \<open>restaurant\<close>), the linked list is the list of its
    nodes, and \<open>AddOrder\<close>/\<open>GetOrder\<close> are one pass of their critical section.  Such
    a pass returns an \<open>attempt\<close>: the thread waits on a condition variable, returns
    after a signal or broadcast, or dereferences \<^verbatim>\<open>NULL\<close>.  \<open>CloseRestaurant\<close>
    returns \<open>close_error + nat\<close>: a failed assertion, or the number of nodes freed.
    The refinement lemmas (C1-C3) relate each pass to the abstract queue through
    \<open>bq_of\<close>; C1 and C2 also re-establish \<open>restaurant_inv\<close>, whose size field
    \<open>bq_of\<close> does not see, so that successive passes keep refining.  C15 and C16
    are the menu index and the unchecked capacity.
  \<^item> \<open>Monitor\<close>: the threads of \<^verbatim>\<open>main.c\<close> as program counters in a record
    \<open>sys\<close>, with ghost logs of placed and served orders.  \<open>customer_step\<close>,
    \<open>cook_step\<close> and \<open>main_step\<close> are inductive step relations, one rule per branch
    of \<open>BENSCHILLIBOWLCustomer\<close>, \<open>BENSCHILLIBOWLCook\<close> and \<open>main\<close>.  \<open>wakes\<close>
    gives POSIX semantics to signal (any one waiter, or lost) and broadcast (all);
    the further wake-ups POSIX allows are the spurious ones.
    \<open>sys_step cfg sp\<close> interleaves the threads, with spurious wake-ups when \<open>sp\<close>
    holds, and \<open>reach\<close> is the set of reachable states.
  \<^item> \<open>Invariants\<close>: \<open>sys_inv\<close>, proved for every reachable state by rule induction
    (\<open>reach_sys_inv\<close>), with one lemma per kind of step.
  \<^item> \<open>Progress\<close>: every state satisfying the invariant in which \<open>main\<close> has not
    returned has a step without spurious wake-ups.
  \<^item> \<open>Termination\<close>: the lexicographic rank \<open>run_order\<close> decreases on every
    step.  By well-founded induction, every reachable state can run to a state
    where \<open>main\<close> has returned.
  \<^item> \<open>Customers\<close>: a second invariant, \<open>inv_percust\<close>, counting each customer's
    orders in the placed log by \<open>customer_id\<close>; when \<open>main\<close> returns, every
    customer has had all its orders served (C25).
  \<^item> \<open>Bank\<close>: \<^verbatim>\<open>shm_processes.c\<close>.  \<open>sem_wait_op\<close> and \<open>sem_signal_op\<close> are the
    two \<^verbatim>\<open>semop\<close> calls, and \<open>bank_main\<close> returns \<open>setup_error + bank\<close> for the
    system calls of \<open>main\<close>.  \<open>dad_step\<close> and \<open>student_step\<close> are executable step
    functions of \<open>ParentProcess\<close> and \<open>ChildProcess\<close>, taking the \<^verbatim>\<open>rand()\<close>
    value as a parameter.  \<open>bank_step\<close> interleaves them, and \<open>bank_run\<close> runs a
    schedule, so concrete runs evaluate by \<open>simp\<close>.  \<open>bank_inv\<close> holds in every
    reachable state (\<open>bank_reach_inv\<close>); C17-C23 are stated over it.
  \<^item> This theory: the properties of the threaded restaurant program (C4-C14), and
    the run in which an order is freed before its customer prints it (C24).

  \<^bold>\<open>Granularity and parameters.\<close>  A critical section under the mutex is one
  atomic step; a waiting thread is woken by a notification and re-enters its
  critical section, where the \<^verbatim>\<open>while\<close> guard is re-checked.  The customer's
  \<^verbatim>\<open>printf\<close> after \<open>AddOrder\<close> reads the order outside the mutex and is its own
  step (control point \<open>CustPrinting\<close>); the cook's \<^verbatim>\<open>printf\<close> and \<^verbatim>\<open>free\<close>
  follow its pass of \<open>GetOrder\<close> in the same step, so an order in \<open>served_log\<close>
  has been freed.  The value of
  \<^verbatim>\<open>rand()\<close> and the indeterminate \<open>order_number\<close> of a fresh \<^verbatim>\<open>malloc\<close> are
  parameters of the steps that consume them.  \<open>config\<close> holds the \<^verbatim>\<open>#define\<close>s;
  \<open>main_config\<close> is the one in \<^verbatim>\<open>main.c\<close> (100, 90, 10, 3).  The general
  theorems assume \<open>valid_config\<close>: a positive size and at least one cook.  No
  loop is modelled with fuel: the threads' loops are steps of a relation, and
  their termination is C9.  The bank processes loop forever by design; their
  liveness theorems are reachability of the next control point.

  \<^bold>\<open>Not modelled.\<close>  Printing, \<^verbatim>\<open>sleep\<close> and \<^verbatim>\<open>srand\<close> have no effect on the
  state.  A failing \<^verbatim>\<open>malloc\<close> and failing pthread calls are not modelled; the
  findings of the manifest discuss the \<^verbatim>\<open>malloc\<close> case.  Nor is the memory
  layout of the linked list: the nodes are the list's elements, and freeing is
  counted.  The header \<^verbatim>\<open>BENSCHILLIBOWL.h\<close> is not under \<^verbatim>\<open>src/\<close>, so the
  records \<open>order\<close> and \<open>restaurant\<close> are modelled from its use in the sources.
\<close>

section \<open>A reachable state with a queued order\<close>

text \<open>
  A concrete prefix of a run of \<open>main.c\<close>: \<open>main\<close> creates customer 1, who picks
  menu item 0 and passes through \<open>AddOrder\<close> before any cook exists.
\<close>

lemma first_order_reachable:
  "\<exists>s. reach main_config False s \<and> orders (bcb s) \<noteq> [] \<and> main_thread s = MainCreateCustomers 1"
proof -
  define s0 where "s0 = sys_init main_config"
  define s1 where "s1 = s0\<lparr>customers := (customers s0)(Suc 0 := CustLoop 0),
                            main_thread := MainCreateCustomers (Suc 0)\<rparr>"
  have r1: "reach main_config False s1"
    unfolding s1_def
    by (rule reach.step [OF reach.init [of main_config False, folded s0_def]
                            sys_step.main [OF main_step.create_customer]])
       (simp_all add: s0_def sys_init_def main_config_def)
  define ord where "ord = \<lparr>menu_item = PickRandomMenuItem 0, customer_id = int (Suc 0), order_number = 0\<rparr>"
  define s2 where "s2 = s1\<lparr>customers := (customers s1)(Suc 0 := CustAdding 0 ord)\<rparr>"
  have r2: "reach main_config False s2"
    unfolding s2_def ord_def
    by (rule reach.step [OF r1 sys_step.customer [OF customer_step.cust_new_order]])
       (simp_all add: s1_def main_config_def)
  define s3 where "s3 = s2\<lparr>bcb := (bcb s2)\<lparr>next_order_number := next_order_number (bcb s2) + 1,
                       orders := AddOrderToBack (orders (bcb s2)) (ord\<lparr>order_number := next_order_number (bcb s2)\<rparr>),
                       current_size := current_size (bcb s2) + 1\<rparr>,
                     customers := (customers s2)(Suc 0 := CustPrinting (Suc 0)
                        (ord\<lparr>order_number := next_order_number (bcb s2)\<rparr>)), cooks := cooks s2,
                     placed_log := placed_log s2 @ [ord\<lparr>order_number := next_order_number (bcb s2)\<rparr>]\<rparr>"
  have add: "AddOrder (bcb s2) ord =
      Returns (next_order_number (bcb s2))
        ((bcb s2)\<lparr>next_order_number := next_order_number (bcb s2) + 1,
           orders := AddOrderToBack (orders (bcb s2)) (ord\<lparr>order_number := next_order_number (bcb s2)\<rparr>),
           current_size := current_size (bcb s2) + 1\<rparr>) (Signal can_get_orders)"
    by (simp add: AddOrder_def Let_def IsFull_def s2_def s1_def s0_def sys_init_def
                  OpenRestaurant_def main_config_def)
  have w: "wakes (Signal can_get_orders)
             ((customers s2)(Suc 0 := CustPrinting (Suc 0)
                (ord\<lparr>order_number := next_order_number (bcb s2)\<rparr>)), cooks s2)
             ((customers s2)(Suc 0 := CustPrinting (Suc 0)
                (ord\<lparr>order_number := next_order_number (bcb s2)\<rparr>)), cooks s2)"
    by (rule wakes.signal_no_cook) (simp add: s2_def s1_def s0_def sys_init_def)
  have r3: "reach main_config False s3"
    unfolding s3_def
    by (rule reach.step [OF r2 sys_step.customer [OF customer_step.cust_add_return [OF _ add w]]])
       (simp add: s2_def)
  moreover have "orders (bcb s3) \<noteq> [] \<and> main_thread s3 = MainCreateCustomers 1"
    by (simp add: s3_def s2_def s1_def)
  ultimately show ?thesis by blast
qed

section \<open>Safety of every reachable state\<close>

text \<open>
  C4 (safety).  In every reachable state of the program, with or without spurious
  wake-ups, \<open>main\<close> never aborts: the two assertions of \<open>CloseRestaurant\<close> hold
  when it is called.
\<close>

theorem close_never_aborts:
  assumes "reach cfg sp s" and "valid_config cfg"
  shows "main_thread s \<noteq> MainAborted e"
  using sys_invD(6) [OF reach_sys_inv [OF assms]] by (auto simp: inv_main_def)

theorem close_never_aborts_witness:
  "main_thread (sys_init main_config) \<noteq> MainAborted AssertIsEmpty"
  using close_never_aborts [OF reach.init [of main_config True]]
  by (simp add: valid_config_def main_config_def)

text \<open>
  C5 (invariant).  Orders are served first in, first out and numbered without gaps:
  the orders the cooks have taken followed by the queue are exactly the orders the
  customers have placed, and these carry the numbers \<open>1, 2, ...\<close> in placement order.
\<close>

theorem orders_served_fifo:
  assumes "reach cfg sp s" and "valid_config cfg"
  shows "served_log s @ orders (bcb s) = placed_log s \<and>
         map order_number (placed_log s) = [1 .. int (length (placed_log s))]"
  using sys_invD(3) [OF reach_sys_inv [OF assms]] by (simp add: inv_logs_def)

theorem orders_served_fifo_witness:
  "served_log (sys_init main_config) @ orders (bcb (sys_init main_config)) =
     placed_log (sys_init main_config)"
  using orders_served_fifo [OF reach.init [of main_config False]]
  by (simp add: valid_config_def main_config_def)

text \<open>
  C6 (bounds).  The capacity invariant: the size field counts the linked list and
  stays between 0 and \<open>BENSCHILLIBOWL_SIZE\<close>.
\<close>

theorem queue_within_capacity:
  assumes "reach cfg sp s" and "valid_config cfg"
  shows "current_size (bcb s) = int (length (orders (bcb s))) \<and>
         0 \<le> current_size (bcb s) \<and> current_size (bcb s) \<le> BENSCHILLIBOWL_SIZE cfg"
  using sys_invD(2) [OF reach_sys_inv [OF assms]] by (simp add: inv_queue_def restaurant_inv_def)

theorem queue_within_capacity_witness:
  "current_size (bcb (sys_init main_config)) \<le> 100"
  using queue_within_capacity [OF reach.init [of main_config False]]
  by (simp add: valid_config_def main_config_def)


text \<open>
  C7 (bounds).  Conservation of orders and the range of the counters: the next order
  number is one more than the orders handled plus the orders queued, and neither
  counter exceeds \<open>EXPECTED_NUM_ORDERS\<close> (plus one), so with the constants of
  \<open>main.c\<close> every \<open>int\<close> field stays within \<open>0 .. 271\<close> and none can overflow.
\<close>

theorem order_counters:
  assumes "reach cfg sp s" and "valid_config cfg"
  shows "next_order_number (bcb s) = orders_handled (bcb s) + current_size (bcb s) + 1 \<and>
         0 \<le> orders_handled (bcb s) \<and> orders_handled (bcb s) \<le> EXPECTED_NUM_ORDERS cfg \<and>
         next_order_number (bcb s) \<le> EXPECTED_NUM_ORDERS cfg + 1"
proof -
  note I = sys_invD [OF reach_sys_inv [OF assms]]
  have ri: "restaurant_inv (bcb s)" using I(2) by (simp add: inv_queue_def)
  have "int (customers_total cfg s) \<le> EXPECTED_NUM_ORDERS cfg"
    using customers_total_le [OF I(1)] unfolding EXPECTED_NUM_ORDERS_def
    by (simp only: of_nat_le_iff)
  with I(2) ri show ?thesis by (auto simp: inv_queue_def restaurant_inv_def)
qed

theorem order_counters_witness:
  "next_order_number (bcb (sys_init main_config)) \<le> 271"
  using order_counters [OF reach.init [of main_config False]]
  by (simp add: valid_config_def main_config_def EXPECTED_NUM_ORDERS_def)

text \<open>
  C8 (liveness).  No deadlock: from every reachable state (even one reached with
  spurious wake-ups) some thread can take a step without any spurious wake-up,
  unless \<open>main\<close> has returned.  In particular no cook waits forever on a drained
  queue and no customer waits forever on a full one.
\<close>

theorem deadlock_free:
  assumes "reach cfg sp s" and "valid_config cfg"
  shows "main_thread s = MainReturned \<or> (\<exists>s'. sys_step cfg False s s')"
  using step_unless_returned [OF reach_sys_inv [OF assms] assms(2)] by blast

theorem deadlock_free_witness:
  "\<exists>s'. sys_step main_config False (sys_init main_config) s'"
  using deadlock_free [OF reach.init [of main_config False]]
  by (simp add: valid_config_def main_config_def sys_init_def)

text \<open>
  C9 (termination).  Every run without spurious wake-ups is finite: the step relation
  restricted to reachable states is well-founded (the rank \<open>run_order\<close> of
  \<open>Termination\<close> decreases on every step).  With C8, every maximal run ends with
  \<open>main\<close> returned.
\<close>

theorem runs_terminate:
  assumes "valid_config cfg"
  shows "wf {(s', s). reach cfg False s \<and> sys_step cfg False s s'}"
proof (rule wf_subset)
  show "wf (run_order cfg)" by (rule wf_run_order)
  show "{(s', s). reach cfg False s \<and> sys_step cfg False s s'} \<subseteq> run_order cfg"
    using sys_step_rank reach_sys_inv [OF _ assms] by blast
qed

theorem runs_terminate_witness:
  "wf {(s', s). reach main_config False s \<and> sys_step main_config False s s'}"
  using runs_terminate [of main_config] by (simp add: valid_config_def main_config_def)

text \<open>
  C10 (functional).  When \<open>main\<close> has returned, every one of the
  \<open>NUM_CUSTOMERS * ORDERS_PER_CUSTOMER\<close> orders has been served, in the order placed,
  and the queue is empty.
\<close>

theorem returned_all_served:
  assumes "reach cfg sp s" and "valid_config cfg" and "main_thread s = MainReturned"
  shows "served_log s = placed_log s \<and> orders (bcb s) = [] \<and>
         length (served_log s) = NUM_CUSTOMERS cfg * ORDERS_PER_CUSTOMER cfg"
proof -
  note inv = reach_sys_inv [OF assms(1,2)]
  from returned_drained [OF inv assms(2,3)] sys_invD(3) [OF inv] show ?thesis
    by (simp add: inv_logs_def EXPECTED_NUM_ORDERS_def flip: of_nat_mult)
qed

theorem returned_all_served_witness:
  "\<exists>s. reach main_config False s \<and> main_thread s = MainReturned \<and> length (served_log s) = 270"
proof -
  have vc: "valid_config main_config" by (simp add: valid_config_def main_config_def)
  obtain s where "(sys_step main_config False)\<^sup>*\<^sup>* (sys_init main_config) s"
      and m: "main_thread s = MainReturned"
    using steps_to_return [OF reach.init vc] by blast
  then have r: "reach main_config False s" using reach_steps reach.init by blast
  with returned_all_served [OF r vc m] m show ?thesis by (auto simp: main_config_def)
qed

text \<open>
  C11 (liveness).  The program can always finish: from the state right after
  \<open>OpenRestaurant\<close>, some schedule without spurious wake-ups leads to \<open>main\<close>
  returning with all \<open>NUM_CUSTOMERS * ORDERS_PER_CUSTOMER\<close> orders served.  By C9 and
  C8 every schedule does.
\<close>

theorem run_completes:
  assumes "valid_config cfg"
  shows "\<exists>s. (sys_step cfg False)\<^sup>*\<^sup>* (sys_init cfg) s \<and> main_thread s = MainReturned \<and>
             length (served_log s) = NUM_CUSTOMERS cfg * ORDERS_PER_CUSTOMER cfg"
proof -
  obtain s where st: "(sys_step cfg False)\<^sup>*\<^sup>* (sys_init cfg) s" and m: "main_thread s = MainReturned"
    using steps_to_return [OF reach.init assms] by blast
  have inv: "sys_inv cfg s" using reach_sys_inv [OF reach_steps [OF st reach.init] assms] .
  from returned_drained [OF inv assms m] sys_invD(3) [OF inv]
  have "length (served_log s) = NUM_CUSTOMERS cfg * ORDERS_PER_CUSTOMER cfg"
    by (simp add: inv_logs_def EXPECTED_NUM_ORDERS_def flip: of_nat_mult)
  with st m show ?thesis by blast
qed

theorem run_completes_witness:
  "\<exists>s. (sys_step main_config False)\<^sup>*\<^sup>* (sys_init main_config) s \<and>
       main_thread s = MainReturned \<and> length (served_log s) = 270"
  using run_completes [of main_config] by (simp add: valid_config_def main_config_def)

text \<open>
  C12 (safety).  No cook ever dereferences a \<^verbatim>\<open>NULL\<close> list head in \<open>GetOrder\<close>:
  the size field and the list agree, so the non-empty branch always finds a node.
\<close>

theorem cooks_never_crash:
  assumes "reach cfg sp s" and "valid_config cfg"
  shows "cooks s k \<noteq> CookCrashed"
  using sys_invD(1) [OF reach_sys_inv [OF assms]] by (simp add: inv_threads_def)

theorem cooks_never_crash_witness: "cooks (sys_init main_config) 1 \<noteq> CookCrashed"
  using cooks_never_crash [OF reach.init [of main_config True]]
  by (simp add: valid_config_def main_config_def)

text \<open>
  C13 (safety).  No lost wake-up: an order in the queue always has a cook among
  \<open>1..NUM_COOKS\<close> that is not waiting on \<open>can_get_orders\<close>, and once every expected order
  has been handled, a waiting cook always has a looping cook that will broadcast.
\<close>

theorem no_lost_wakeup:
  assumes "reach cfg sp s" and "valid_config cfg"
  shows "(orders (bcb s) \<noteq> [] \<longrightarrow> (\<exists>k\<in>{1..NUM_COOKS cfg}. \<not> cook_waiting (cooks s k))) \<and>
         ((\<exists>k. cook_waiting (cooks s k)) \<and> EXPECTED_NUM_ORDERS cfg \<le> orders_handled (bcb s) \<longrightarrow>
            (\<exists>k. cook_looping (cooks s k)))"
  using sys_invD(5) [OF reach_sys_inv [OF assms]] unfolding inv_awake_def by blast

theorem no_lost_wakeup_witness:
  "\<exists>s. reach main_config False s \<and> orders (bcb s) \<noteq> [] \<and>
       (\<exists>k\<in>{1..10}. \<not> cook_waiting (cooks s k))"
proof -
  have vc: "valid_config main_config" by (simp add: valid_config_def main_config_def)
  obtain s where r: "reach main_config False s" and ne: "orders (bcb s) \<noteq> []"
    using first_order_reachable by blast
  from no_lost_wakeup [OF r vc] ne r show ?thesis by (auto simp: main_config_def)
qed

text \<open>
  C14 (functional).  Termination detection: once some cook has returned, the queue
  is drained for good, and every later pass of \<open>GetOrder\<close> returns \<^verbatim>\<open>NULL\<close> and
  broadcasts without waiting.
\<close>

theorem drained_returns_done:
  assumes "reach cfg sp s" and "valid_config cfg" and "cook_exited (cooks s k)"
  shows "GetOrder (bcb s) = Returns None (bcb s) (Broadcast can_get_orders)"
proof -
  note I = sys_invD [OF reach_sys_inv [OF assms(1,2)]]
  from I(4) assms(3) have "orders (bcb s) = [] \<and> orders_handled (bcb s) = EXPECTED_NUM_ORDERS cfg"
    unfolding inv_drained_def by blast
  moreover have "restaurant_inv (bcb s)" "expected_num_orders (bcb s) = EXPECTED_NUM_ORDERS cfg"
    using I(2) by (simp_all add: inv_queue_def)
  ultimately show ?thesis by (simp add: GetOrder_def IsEmpty_def restaurant_inv_def)
qed

theorem drained_returns_done_witness:
  "\<exists>s. reach main_config False s \<and> cook_exited (cooks s 1) \<and>
       GetOrder (bcb s) = Returns None (bcb s) (Broadcast can_get_orders)"
proof -
  have vc: "valid_config main_config" by (simp add: valid_config_def main_config_def)
  obtain s where "(sys_step main_config False)\<^sup>*\<^sup>* (sys_init main_config) s"
      and m: "main_thread s = MainReturned"
    using steps_to_return [OF reach.init vc] by blast
  then have r: "reach main_config False s" using reach_steps reach.init by blast
  have "cook_exited (cooks s 1)" using returned_drained [OF reach_sys_inv [OF r vc] vc m] by blast
  with drained_returns_done [OF r vc this] r show ?thesis by blast
qed


section \<open>The order read after it is freed\<close>

text \<open>
  C24 (safety).  A violated safety property of \<open>BENSCHILLIBOWLCustomer\<close>: there is a
  run in which a customer returns from \<open>AddOrder\<close> and, before it executes the
  \<^verbatim>\<open>printf\<close> that reads \<^verbatim>\<open>order->menu_item\<close>, a cook takes that very order and
  frees it.  Every configuration with a customer placing at least one order has
  such a run, so the read after \<open>AddOrder\<close> is a use after free.
\<close>

theorem order_freed_before_printf:
  assumes vc: "valid_config cfg" and nc: "0 < NUM_CUSTOMERS cfg" and no: "0 < ORDERS_PER_CUSTOMER cfg"
  shows "\<exists>s c i ord. reach cfg False s \<and> customers s c = CustPrinting i ord \<and>
                    ord \<in> set (served_log s)"
proof -
  have sz: "0 < BENSCHILLIBOWL_SIZE cfg" and nk: "0 < NUM_COOKS cfg"
    using vc by (simp_all add: valid_config_def)
  have nc1: "Suc 0 \<le> NUM_CUSTOMERS cfg" and nk1: "Suc 0 \<le> NUM_COOKS cfg" using nc nk by simp_all
  define C where "C = sys_init cfg\<lparr>
      customers := (\<lambda>c. if c \<in> {1..NUM_CUSTOMERS cfg} then CustLoop 0 else CustNotStarted),
      cooks := (\<lambda>j. if j \<in> {1..NUM_COOKS cfg} then CookLoop 0 else CookNotStarted),
      main_thread := MainCreateCooks (NUM_COOKS cfg)\<rparr>"
  have r0: "reach cfg False C" unfolding C_def by (rule reach_create_cooks [OF order_refl])
  define S1 where "S1 = C\<lparr>main_thread := MainJoinCustomers 0\<rparr>"
  have r1: "reach cfg False S1"
    unfolding S1_def
    by (rule reach.step [OF r0 sys_step.main [OF main_step.cooks_created [where i = "NUM_COOKS cfg"]]])
       (simp_all add: C_def)
  define ord where "ord = \<lparr>menu_item = PickRandomMenuItem 0, customer_id = int 1, order_number = 0\<rparr>"
  define S2 where "S2 = S1\<lparr>customers := (customers S1)(1 := CustAdding 0 ord)\<rparr>"
  have r2: "reach cfg False S2"
    unfolding S2_def ord_def
    by (rule reach.step [OF r1 sys_step.customer
          [OF customer_step.cust_new_order [where c = 1 and i = 0 and r = 0 and nr = 0]]])
       (simp_all add: S1_def C_def nc1 no)
  define n1 where "n1 = next_order_number (bcb S2)"
  define R where "R = (bcb S2)\<lparr>next_order_number := n1 + 1,
      orders := AddOrderToBack (orders (bcb S2)) (ord\<lparr>order_number := n1\<rparr>),
      current_size := current_size (bcb S2) + 1\<rparr>"
  have add: "AddOrder (bcb S2) ord = Returns n1 R (Signal can_get_orders)"
    using sz by (simp add: AddOrder_def Let_def IsFull_def R_def n1_def S2_def S1_def C_def
                           sys_init_def OpenRestaurant_def)
  have w: "wakes (Signal can_get_orders)
             ((customers S2)(1 := CustPrinting (Suc 0) (ord\<lparr>order_number := n1\<rparr>)), cooks S2)
             ((customers S2)(1 := CustPrinting (Suc 0) (ord\<lparr>order_number := n1\<rparr>)), cooks S2)"
    by (rule wakes.signal_no_cook) (simp add: S2_def S1_def C_def)
  define S3 where "S3 = S2\<lparr>bcb := R,
      customers := (customers S2)(1 := CustPrinting (Suc 0) (ord\<lparr>order_number := n1\<rparr>)),
      cooks := cooks S2, placed_log := placed_log S2 @ [ord\<lparr>order_number := n1\<rparr>]\<rparr>"
  have r3: "reach cfg False S3"
    unfolding S3_def
    by (rule reach.step [OF r2 sys_step.customer [OF customer_step.cust_add_return [OF _ add w]]])
       (simp add: S2_def)
  define R' where "R' = R\<lparr>orders := [], current_size := current_size R - 1,
      orders_handled := orders_handled R + 1\<rparr>"
  have get: "GetOrder R = Returns (Some (ord\<lparr>order_number := n1\<rparr>)) R' (Signal can_add_orders)"
    by (simp add: GetOrder_def IsEmpty_def R'_def R_def S2_def S1_def C_def sys_init_def
                  OpenRestaurant_def)
  have w2: "wakes (Signal can_add_orders) (customers S3, (cooks S3)(1 := CookLoop (Suc 0)))
              (customers S3, (cooks S3)(1 := CookLoop (Suc 0)))"
    by (rule wakes.signal_no_customer) (simp add: S3_def S2_def S1_def C_def)
  have bS3: "bcb S3 = R" by (simp add: S3_def)
  define S4 where "S4 = S3\<lparr>bcb := R', customers := customers S3,
      cooks := (cooks S3)(1 := CookLoop (Suc 0)),
      served_log := served_log S3 @ [ord\<lparr>order_number := n1\<rparr>]\<rparr>"
  have r4: "reach cfg False S4"
    unfolding S4_def
    by (rule reach.step [OF r3 sys_step.cook [OF cook_step.cook_get_order [OF _ get [folded bS3] w2]]])
       (simp add: S3_def S2_def S1_def C_def nk1)
  have "customers S4 1 = CustPrinting (Suc 0) (ord\<lparr>order_number := n1\<rparr>)"
    and "ord\<lparr>order_number := n1\<rparr> \<in> set (served_log S4)"
    by (simp_all add: S4_def S3_def)
  with r4 show ?thesis by blast
qed


theorem order_freed_before_printf_witness:
  "\<exists>s c i ord. reach main_config False s \<and> customers s c = CustPrinting i ord \<and>
              ord \<in> set (served_log s)"
  using order_freed_before_printf [of main_config] by (simp add: valid_config_def main_config_def)

end
